theory Spec2Isabelle
  imports Main "HOL-Library.Sublist"
begin

section \<open>Go strings as byte lists\<close>

text \<open>
  A Go \<open>string\<close> is a sequence of bytes and \<open>len\<close> counts bytes; an Isabelle
  \<^typ>\<open>string\<close> is a list of 8-bit characters, so the two coincide.  The functions of this
  section are the ones of the packages \<open>strings\<close> and \<open>strconv\<close> that the cleaner
  calls, with Go's names and argument order.
\<close>

fun HasPrefix :: "string \<Rightarrow> string \<Rightarrow> bool" where
  "HasPrefix s [] = True"
| "HasPrefix [] (p # ps) = False"
| "HasPrefix (c # cs) (p # ps) = (c = p \<and> HasPrefix cs ps)"

definition HasSuffix :: "string \<Rightarrow> string \<Rightarrow> bool" where
  "HasSuffix s suf = HasPrefix (rev s) (rev suf)"

definition TrimSuffix :: "string \<Rightarrow> string \<Rightarrow> string" where
  "TrimSuffix s suf = (if HasSuffix s suf then take (length s - length suf) s else s)"

text \<open>\<open>strings.Index\<close>: the position of the first occurrence, \<open>None\<close> for Go's \<open>-1\<close>.\<close>

fun Index :: "string \<Rightarrow> string \<Rightarrow> nat option" where
  "Index [] sub = (if sub = [] then Some 0 else None)"
| "Index (c # cs) sub =
     (if HasPrefix (c # cs) sub then Some 0 else map_option Suc (Index cs sub))"

text \<open>\<open>strings.LastIndex\<close>, as the Go \<open>int\<close> it returns (\<open>-1\<close> when there is none).\<close>

definition LastIndex :: "string \<Rightarrow> string \<Rightarrow> int" where
  "LastIndex s sub =
     (case Index (rev s) (rev sub) of
        None \<Rightarrow> - 1
      | Some j \<Rightarrow> int (length s) - int j - int (length sub))"

text \<open>\<open>strings.Replace (s, old, new, 1)\<close>: only the first occurrence is replaced.\<close>

definition ReplaceFirst :: "string \<Rightarrow> string \<Rightarrow> string \<Rightarrow> string" where
  "ReplaceFirst s old new =
     (case Index s old of
        None \<Rightarrow> s
      | Some i \<Rightarrow> take i s @ new @ drop (i + length old) s)"

text \<open>
  \<open>strings.Split\<close> for a separator of one byte (the cleaner splits on \<open>","\<close> only):
  one more piece than there are separators; \<open>cur\<close> is the current piece, reversed.
\<close>

fun SplitAcc :: "string \<Rightarrow> char \<Rightarrow> string \<Rightarrow> string list" where
  "SplitAcc [] sep cur = [rev cur]"
| "SplitAcc (c # cs) sep cur =
     (if c = sep then rev cur # SplitAcc cs sep [] else SplitAcc cs sep (c # cur))"

definition Split :: "string \<Rightarrow> char \<Rightarrow> string list" where
  "Split s sep = SplitAcc s sep []"

text \<open>
  The UTF-8 encodings of the code points for which \<open>unicode.IsSpace\<close> holds: tab, line feed,
  vertical tab, form feed, carriage return, space, U+0085, U+00A0, U+1680, U+2000 to U+200A,
  U+2028, U+2029, U+202F, U+205F and U+3000.  None of them starts with a continuation byte,
  so a decoder that walks the string rune by rune meets each occurrence at a rune boundary.
\<close>

definition whiteSpace :: "string list" where
  "whiteSpace =
     [[CHR 0x09], [CHR 0x0A], [CHR 0x0B], [CHR 0x0C], [CHR 0x0D], [CHR 0x20],
      [CHR 0xC2, CHR 0x85], [CHR 0xC2, CHR 0xA0],
      [CHR 0xE1, CHR 0x9A, CHR 0x80],
      [CHR 0xE2, CHR 0x80, CHR 0x80], [CHR 0xE2, CHR 0x80, CHR 0x81],
      [CHR 0xE2, CHR 0x80, CHR 0x82], [CHR 0xE2, CHR 0x80, CHR 0x83],
      [CHR 0xE2, CHR 0x80, CHR 0x84], [CHR 0xE2, CHR 0x80, CHR 0x85],
      [CHR 0xE2, CHR 0x80, CHR 0x86], [CHR 0xE2, CHR 0x80, CHR 0x87],
      [CHR 0xE2, CHR 0x80, CHR 0x88], [CHR 0xE2, CHR 0x80, CHR 0x89],
      [CHR 0xE2, CHR 0x80, CHR 0x8A],
      [CHR 0xE2, CHR 0x80, CHR 0xA8], [CHR 0xE2, CHR 0x80, CHR 0xA9],
      [CHR 0xE2, CHR 0x80, CHR 0xAF], [CHR 0xE2, CHR 0x81, CHR 0x9F],
      [CHR 0xE3, CHR 0x80, CHR 0x80]]"

text \<open>The number of bytes of the pattern that \<open>s\<close> begins with, \<open>0\<close> when it begins with none.\<close>

definition spaceLen :: "string list \<Rightarrow> string \<Rightarrow> nat" where
  "spaceLen pats s = (case find (HasPrefix s) pats of None \<Rightarrow> 0 | Some w \<Rightarrow> length w)"

fun trimLeft :: "string list \<Rightarrow> string \<Rightarrow> string" where
  "trimLeft pats [] = []"
| "trimLeft pats (c # cs) =
     (if spaceLen pats (c # cs) = 0 then c # cs
      else trimLeft pats (drop (spaceLen pats (c # cs) - 1) cs))"

text \<open>\<open>strings.TrimSpace\<close>: white space is cut from the left, then from the right.\<close>

definition TrimSpace :: "string \<Rightarrow> string" where
  "TrimSpace s = rev (trimLeft (map rev whiteSpace) (rev (trimLeft whiteSpace s)))"

text \<open>\<open>strings.Fields\<close>: the maximal runs without white space; \<open>cur\<close> is the current run, reversed.\<close>

fun FieldsAcc :: "string \<Rightarrow> string \<Rightarrow> string list" where
  "FieldsAcc [] cur = (if cur = [] then [] else [rev cur])"
| "FieldsAcc (c # cs) cur =
     (if spaceLen whiteSpace (c # cs) = 0 then FieldsAcc cs (c # cur)
      else (if cur = [] then [] else [rev cur])
           @ FieldsAcc (drop (spaceLen whiteSpace (c # cs) - 1) cs) [])"

definition Fields :: "string \<Rightarrow> string list" where
  "Fields s = FieldsAcc s []"

text \<open>
  \<open>strconv.Atoi\<close> on a 64-bit platform: an optional sign, then one or more decimal digits,
  and the value must fit an \<open>int64\<close>; every other input is an error (\<open>None\<close>).
\<close>

fun parseDigits :: "int \<Rightarrow> string \<Rightarrow> int option" where
  "parseDigits n [] = Some n"
| "parseDigits n (c # cs) =
     (if (48::nat) \<le> of_char c \<and> of_char c \<le> (57::nat)
      then parseDigits (n * 10 + (int (of_char c) - 48)) cs else None)"

definition Atoi :: "string \<Rightarrow> int option" where
  "Atoi s =
     (let neg = HasPrefix s ''-'';
          ds = (if HasPrefix s ''-'' \<or> HasPrefix s ''+'' then tl s else s)
      in if ds = [] then None
         else case parseDigits 0 ds of
                None \<Rightarrow> None
              | Some n \<Rightarrow>
                  (let v = (if neg then - n else n)
                   in if - (2 ^ 63) \<le> v \<and> v < 2 ^ 63 then Some v else None))"

section \<open>The excerpt generator\<close>

text \<open>
  \<open>generateExcerpt\<close>.  The slice \<open>content[:maxLength]\<close> panics for a negative bound, which
  is the result \<open>None\<close>; \<open>maxLength - 50\<close> is computed only for \<open>maxLength \<ge> 0\<close>, where a
  64-bit \<open>int\<close> does not wrap.
\<close>

definition generateExcerpt :: "string \<Rightarrow> int \<Rightarrow> string option" where
  "generateExcerpt content maxLength =
     (if int (length content) \<le> maxLength then Some content
      else if maxLength < 0 then None
      else
        (let excerpt = take (nat maxLength) content;
             lastSpace = LastIndex excerpt '' ''
         in Some ((if lastSpace > 0 \<and> lastSpace > maxLength - 50
                   then take (nat lastSpace) excerpt else excerpt) @ ''...'')))"

section \<open>The URL resolver\<close>

text \<open>The two fields of \<open>url.URL\<close> that the cleaner reads.\<close>

record URL =
  Scheme :: string
  Host :: string

text \<open>\<open>resolveURL\<close> of the article cleaner: four prefix tests in the source's order.\<close>

definition resolveURL :: "string \<Rightarrow> URL \<Rightarrow> string" where
  "resolveURL rawURL baseURL =
     (if rawURL = [] then []
      else if HasPrefix rawURL ''http://'' \<or> HasPrefix rawURL ''https://'' then rawURL
      else if HasPrefix rawURL ''//'' then ''https:'' @ rawURL
      else if HasPrefix rawURL ''/'' then Scheme baseURL @ ''://'' @ Host baseURL @ rawURL
      else Scheme baseURL @ ''://'' @ Host baseURL @ ''/'' @ rawURL)"

section \<open>The document tree and the selectors\<close>

text \<open>
  The parsed page: element nodes with their tag, their attributes in order and their
  children, and text nodes.  Comments and the doctype hold neither elements nor text and
  are left out.  A document is the list of the children of the document node; \<open>Find\<close>
  searches descendants, so a selection taken on the document or on an element is taken on
  its list of children.
\<close>

datatype node = Element string "(string \<times> string) list" "node list" | TextNode string

type_synonym document = "node list"

fun children :: "node \<Rightarrow> node list" where
  "children (Element tg as cs) = cs"
| "children (TextNode t) = []"

text \<open>\<open>Selection.Attr\<close> on one node: the value of the first attribute with the key.\<close>

fun Attr :: "node \<Rightarrow> string \<Rightarrow> string option" where
  "Attr (Element tg as cs) k = map_of as k"
| "Attr (TextNode t) k = None"

text \<open>\<open>Selection.SetAttr\<close>: the first attribute with the key gets the value, else one is appended.\<close>

fun setAttr :: "string \<Rightarrow> string \<Rightarrow> (string \<times> string) list \<Rightarrow> (string \<times> string) list" where
  "setAttr k v [] = [(k, v)]"
| "setAttr k v (a # as) = (if fst a = k then (k, v) # as else a # setAttr k v as)"

text \<open>
  \<open>Selection.RemoveAttr\<close>: the first attribute with the key is removed.  The order in which
  the library leaves the other attributes is not modelled; nothing reads it.
\<close>

fun removeAttr :: "string \<Rightarrow> (string \<times> string) list \<Rightarrow> (string \<times> string) list" where
  "removeAttr k [] = []"
| "removeAttr k (a # as) = (if fst a = k then as else a # removeAttr k as)"

text \<open>\<open>Selection.Text\<close> of one node: the text nodes below it, concatenated.\<close>

fun nodeText :: "node \<Rightarrow> string" where
  "nodeText (TextNode t) = t"
| "nodeText (Element tg as cs) = concat (map nodeText cs)"

text \<open>
  The selectors that the cleaner passes to \<open>Find\<close>, parsed: a tag name (\<open>"nav"\<close>), a class
  (\<open>".nav"\<close>), an attribute that contains a string (\<open>"[id*='widget']"\<close>), the same with a
  tag (\<open>"iframe[src*='youtube']"\<close>), a tag with an attribute that begins with a string
  (\<open>"meta[property^='og:']"\<close>) or equals one (\<open>"meta[name='description']"\<close>), and a tag
  without a class (\<open>"form:not(.search-form)"\<close>).
\<close>

datatype selector =
    Tag string
  | Class string
  | AttrContains string string
  | TagAttrContains string string string
  | TagAttrPrefix string string string
  | TagAttrEquals string string string
  | TagNotClass string string

definition Contains :: "string \<Rightarrow> string \<Rightarrow> bool" where
  "Contains s sub = (Index s sub \<noteq> None)"

text \<open>
  The class test of the selector library: the attribute value is cut at space, tab, line
  feed, form feed and carriage return, and one of the pieces must be the class; \<open>cur\<close>
  is the current piece, reversed.
\<close>

fun matchIncludeAcc :: "string \<Rightarrow> string \<Rightarrow> string \<Rightarrow> bool" where
  "matchIncludeAcc val [] cur = (cur \<noteq> [] \<and> rev cur = val)"
| "matchIncludeAcc val (c # cs) cur =
     (if c \<in> set [CHR 0x20, CHR 0x09, CHR 0x0D, CHR 0x0A, CHR 0x0C]
      then rev cur = val \<or> matchIncludeAcc val cs []
      else matchIncludeAcc val cs (c # cur))"

definition hasClass :: "string \<Rightarrow> (string \<times> string) list \<Rightarrow> bool" where
  "hasClass val as = list_ex (\<lambda>a. fst a = ''class'' \<and> matchIncludeAcc val (snd a) []) as"

text \<open>
  Whether an element with the given tag and attributes matches.  An attribute test with
  an empty string matches nothing.  No selector of the cleaner looks at the parent, the
  siblings or the children of the element.
\<close>

fun matches :: "selector \<Rightarrow> string \<Rightarrow> (string \<times> string) list \<Rightarrow> bool" where
  "matches (Tag t) tg as = (tg = t)"
| "matches (Class c) tg as = hasClass c as"
| "matches (AttrContains k v) tg as = (v \<noteq> [] \<and> list_ex (\<lambda>a. fst a = k \<and> Contains (snd a) v) as)"
| "matches (TagAttrContains t k v) tg as =
     (tg = t \<and> v \<noteq> [] \<and> list_ex (\<lambda>a. fst a = k \<and> Contains (snd a) v) as)"
| "matches (TagAttrPrefix t k v) tg as =
     (tg = t \<and> v \<noteq> [] \<and> list_ex (\<lambda>a. fst a = k \<and> HasPrefix (snd a) v) as)"
| "matches (TagAttrEquals t k v) tg as = (tg = t \<and> list_ex (\<lambda>a. fst a = k \<and> snd a = v) as)"
| "matches (TagNotClass t c) tg as = (tg = t \<and> \<not> hasClass c as)"

text \<open>The matching elements below a node or the node itself, in document order.\<close>

fun findNode :: "(string \<Rightarrow> (string \<times> string) list \<Rightarrow> bool) \<Rightarrow> node \<Rightarrow> node list" where
  "findNode P (TextNode t) = []"
| "findNode P (Element tg as cs) =
     (if P tg as then [Element tg as cs] else []) @ concat (map (findNode P) cs)"

definition Find :: "selector \<Rightarrow> node list \<Rightarrow> node list" where
  "Find sel ns = concat (map (findNode (matches sel)) ns)"

text \<open>
  \<open>Selection.Remove\<close> on the selection of all matches: every matching element leaves the
  tree with everything below it.
\<close>

fun removeNode :: "(string \<Rightarrow> (string \<times> string) list \<Rightarrow> bool) \<Rightarrow> node \<Rightarrow> node list" where
  "removeNode P (TextNode t) = [TextNode t]"
| "removeNode P (Element tg as cs) =
     (if P tg as then [] else [Element tg as (concat (map (removeNode P) cs))])"

definition Remove :: "selector \<Rightarrow> node list \<Rightarrow> node list" where
  "Remove sel ns = concat (map (removeNode (matches sel)) ns)"

section \<open>The pruner\<close>

definition unwantedSelectors :: "selector list" where
  "unwantedSelectors =
     [Tag ''script'', Tag ''style'', Tag ''noscript'',
      Tag ''nav'', Tag ''header'', Tag ''footer'', Class ''navigation'', Class ''nav'', Class ''menu'',
      Class ''ad'', Class ''ads'', Class ''advertisement'', Class ''social'', Class ''share'',
      Class ''sharing'',
      Class ''social-share'', Class ''social-media'', Class ''twitter'', Class ''facebook'',
      Class ''instagram'',
      Class ''comments'', Class ''comment'', Class ''related'', Class ''recommended'',
      Class ''suggestions'',
      Class ''analytics'', Class ''tracking'', Class ''pixel'',
      Class ''cookie'', Class ''gdpr'', Class ''popup'', Class ''modal'', Class ''overlay'',
      Class ''subscribe'', Class ''newsletter'', Class ''signup'', Class ''email-signup'',
      Class ''breadcrumb'', Class ''breadcrumbs'', Class ''tags'', Class ''categories'',
      Class ''video-player'', Class ''embed'',
      TagAttrContains ''iframe'' ''src'' ''youtube'', TagAttrContains ''iframe'' ''src'' ''vimeo'',
      AttrContains ''class'' ''sidebar'', AttrContains ''class'' ''widget'',
      AttrContains ''id'' ''sidebar'', AttrContains ''id'' ''widget'',
      TagNotClass ''form'' ''search-form'']"

text \<open>
  One round of the loop of \<open>removeUnwantedElements\<close>, on the document and \<open>removedCount\<close>;
  the function returns both (the source mutates the document and logs the count).
\<close>

definition pruneStep :: "document \<times> nat \<Rightarrow> selector \<Rightarrow> document \<times> nat" where
  "pruneStep st selector =
     (let elements = Find selector (fst st);
          count = length elements
      in if count > 0 then (Remove selector (fst st), snd st + count) else st)"

definition removeUnwantedElements :: "document \<Rightarrow> document \<times> nat" where
  "removeUnwantedElements doc = foldl pruneStep (doc, 0) unwantedSelectors"

section \<open>The image rewriter\<close>

text \<open>
  One candidate of a \<open>srcset\<close> in the loop of \<open>findHighestQualitySource\<close>, on the pair of
  \<open>highestQualitySource\<close> and \<open>maxWidth\<close>: a candidate that has not exactly two fields or
  whose width \<open>Atoi\<close> rejects is skipped, and a width replaces the maximum only when it is
  greater.
\<close>

definition candidateStep :: "string \<times> int \<Rightarrow> string \<Rightarrow> string \<times> int" where
  "candidateStep st src =
     (let parts = Fields (TrimSpace src)
      in if length parts \<noteq> 2 then st
         else case Atoi (TrimSuffix (parts ! 1) ''w'') of
                None \<Rightarrow> st
              | Some width \<Rightarrow> if width > snd st then (parts ! 0, width) else st)"

text \<open>One \<open>source\<close> element: without a \<open>srcset\<close> it is skipped.\<close>

definition sourceStep :: "string \<times> int \<Rightarrow> node \<Rightarrow> string \<times> int" where
  "sourceStep st source =
     (case Attr source ''srcset'' of
        None \<Rightarrow> st
      | Some srcset \<Rightarrow> foldl candidateStep st (Split srcset (CHR '','')))"

definition findHighestQualitySource :: "node \<Rightarrow> string" where
  "findHighestQualitySource picture =
     fst (foldl sourceStep ([], 0) (Find (Tag ''source'') (children picture)))"

text \<open>
  What \<open>processPictureElements\<close> does to the attributes of an \<open>img\<close> of a picture: a new
  \<open>src\<close> when a source was selected, and \<open>loading\<close> and \<open>decoding\<close> removed.
\<close>

definition pictureImgAttrs :: "URL \<Rightarrow> string \<Rightarrow> (string \<times> string) list \<Rightarrow> (string \<times> string) list" where
  "pictureImgAttrs baseURL highestQualitySource as =
     removeAttr ''decoding'' (removeAttr ''loading''
       (if highestQualitySource \<noteq> []
        then setAttr ''src''
               (resolveURL (ReplaceFirst highestQualitySource ''webp'' ''png'') baseURL) as
        else as))"

fun pictureImg :: "URL \<Rightarrow> string \<Rightarrow> node \<Rightarrow> node" where
  "pictureImg baseURL hq (Element tg as cs) = Element tg (pictureImgAttrs baseURL hq as) cs"
| "pictureImg baseURL hq (TextNode t) = TextNode t"

text \<open>
  \<open>processPictureElements\<close>: a \<open>picture\<close> with an \<open>img\<close> below it is replaced by its \<open>img\<close>
  elements, in document order; a \<open>picture\<close> without one stays.  The parser gives an \<open>img\<close>
  no children, so what is moved holds no further \<open>picture\<close>; a \<open>picture\<close> inside a replaced
  one has lost its \<open>img\<close> elements when its turn comes, and is gone with the outer one.
\<close>

fun pictureNode :: "URL \<Rightarrow> node \<Rightarrow> node list" where
  "pictureNode baseURL (TextNode t) = [TextNode t]"
| "pictureNode baseURL (Element tg as cs) =
     (if tg = ''picture'' then
        (if Find (Tag ''img'') cs = [] then [Element tg as cs]
         else map (pictureImg baseURL (findHighestQualitySource (Element tg as cs)))
                (Find (Tag ''img'') cs))
      else [Element tg as (concat (map (pictureNode baseURL) cs))])"

definition processPictureElements :: "document \<Rightarrow> URL \<Rightarrow> document" where
  "processPictureElements doc baseURL = concat (map (pictureNode baseURL) doc)"

text \<open>
  What \<open>processImgElements\<close> does to the attributes of an \<open>img\<close>: \<open>loading\<close>, \<open>decoding\<close> and
  \<open>srcset\<close> removed, and a \<open>src\<close> that is there resolved.
\<close>

definition imgAttrs :: "URL \<Rightarrow> (string \<times> string) list \<Rightarrow> (string \<times> string) list" where
  "imgAttrs baseURL as =
     (let as' = removeAttr ''srcset'' (removeAttr ''decoding'' (removeAttr ''loading'' as))
      in case map_of as' ''src'' of
           None \<Rightarrow> as'
         | Some src \<Rightarrow>
             (let resolvedURL = resolveURL src baseURL
              in if resolvedURL \<noteq> src then setAttr ''src'' resolvedURL as' else as'))"

fun imgNode :: "URL \<Rightarrow> node \<Rightarrow> node" where
  "imgNode baseURL (TextNode t) = TextNode t"
| "imgNode baseURL (Element tg as cs) =
     Element tg (if tg = ''img'' then imgAttrs baseURL as else as) (map (imgNode baseURL) cs)"

definition processImgElements :: "document \<Rightarrow> URL \<Rightarrow> document" where
  "processImgElements doc baseURL = map (imgNode baseURL) doc"

definition processImages :: "document \<Rightarrow> URL \<Rightarrow> document" where
  "processImages doc baseURL = processImgElements (processPictureElements doc baseURL) baseURL"

section \<open>The metadata extractor\<close>

record OpenGraphData =
  Title :: string
  Description :: string
  Image :: string
  URL :: string
  Type :: string
  SiteName :: string
  Locale :: string
  TwitterCard :: string
  TwitterSite :: string
  TwitterCreator :: string
  TwitterTitle :: string
  TwitterDescription :: string
  TwitterImage :: string
  Author :: string
  PublishedAt :: string
  ModifiedAt :: string
  Section :: string
  Tags :: "string list"

text \<open>The zero value \<open>OpenGraphData{}\<close>.\<close>

definition emptyOpenGraphData :: OpenGraphData where
  "emptyOpenGraphData =
     \<lparr>Title = [], Description = [], Image = [], URL = [], Type = [], SiteName = [], Locale = [],
      TwitterCard = [], TwitterSite = [], TwitterCreator = [], TwitterTitle = [],
      TwitterDescription = [], TwitterImage = [], Author = [], PublishedAt = [],
      ModifiedAt = [], Section = [], Tags = []\<rparr>"

text \<open>The body of the loop of \<open>extractOGMetaTags\<close>, with the \<open>switch\<close> in the source's order.\<close>

definition ogStep :: "OpenGraphData \<Rightarrow> node \<Rightarrow> OpenGraphData" where
  "ogStep og s =
     (case Attr s ''property'' of
        None \<Rightarrow> og
      | Some property \<Rightarrow>
          (case Attr s ''content'' of
             None \<Rightarrow> og
           | Some content \<Rightarrow>
               if content = [] then og
               else if property = ''og:title'' then og\<lparr>Title := content\<rparr>
               else if property = ''og:description'' then og\<lparr>Description := content\<rparr>
               else if property = ''og:image'' then og\<lparr>Image := content\<rparr>
               else if property = ''og:url'' then og\<lparr>URL := content\<rparr>
               else if property = ''og:type'' then og\<lparr>Type := content\<rparr>
               else if property = ''og:site_name'' then og\<lparr>SiteName := content\<rparr>
               else if property = ''og:locale'' then og\<lparr>Locale := content\<rparr>
               else if property = ''article:author'' then og\<lparr>Author := content\<rparr>
               else if property = ''article:published_time'' then og\<lparr>PublishedAt := content\<rparr>
               else if property = ''article:modified_time'' then og\<lparr>ModifiedAt := content\<rparr>
               else if property = ''article:section'' then og\<lparr>Section := content\<rparr>
               else if property = ''article:tag'' then og\<lparr>Tags := Tags og @ [content]\<rparr>
               else og))"

definition extractOGMetaTags :: "document \<Rightarrow> OpenGraphData \<Rightarrow> OpenGraphData" where
  "extractOGMetaTags doc og = foldl ogStep og (Find (TagAttrPrefix ''meta'' ''property'' ''og:'') doc)"

text \<open>The body of the loop of \<open>extractTwitterMetaTags\<close>.\<close>

definition twitterStep :: "OpenGraphData \<Rightarrow> node \<Rightarrow> OpenGraphData" where
  "twitterStep og s =
     (case Attr s ''name'' of
        None \<Rightarrow> og
      | Some name \<Rightarrow>
          (case Attr s ''content'' of
             None \<Rightarrow> og
           | Some content \<Rightarrow>
               if content = [] then og
               else if name = ''twitter:card'' then og\<lparr>TwitterCard := content\<rparr>
               else if name = ''twitter:site'' then og\<lparr>TwitterSite := content\<rparr>
               else if name = ''twitter:creator'' then og\<lparr>TwitterCreator := content\<rparr>
               else if name = ''twitter:title'' then og\<lparr>TwitterTitle := content\<rparr>
               else if name = ''twitter:description'' then og\<lparr>TwitterDescription := content\<rparr>
               else if name = ''twitter:image'' then og\<lparr>TwitterImage := content\<rparr>
               else og))"

definition extractTwitterMetaTags :: "document \<Rightarrow> OpenGraphData \<Rightarrow> OpenGraphData" where
  "extractTwitterMetaTags doc og =
     foldl twitterStep og (Find (TagAttrPrefix ''meta'' ''name'' ''twitter:'') doc)"

text \<open>\<open>Find(sel).First().Text()\<close>: the text of the first match, empty without a match.\<close>

definition firstText :: "selector \<Rightarrow> document \<Rightarrow> string" where
  "firstText sel doc = (case Find sel doc of [] \<Rightarrow> [] | n # ns \<Rightarrow> nodeText n)"

text \<open>\<open>Find(sel).Attr(k)\<close>: the attribute of the first match.\<close>

definition firstAttr :: "selector \<Rightarrow> document \<Rightarrow> string \<Rightarrow> string option" where
  "firstAttr sel doc k = (case Find sel doc of [] \<Rightarrow> None | n # ns \<Rightarrow> Attr n k)"

definition fallbackTitle :: "document \<Rightarrow> OpenGraphData \<Rightarrow> OpenGraphData" where
  "fallbackTitle doc og =
     (if Title og = [] then
        (let title = firstText (Tag ''title'') doc
         in if title \<noteq> [] then og\<lparr>Title := TrimSpace title\<rparr> else og)
      else og)"

definition fallbackDescription :: "document \<Rightarrow> OpenGraphData \<Rightarrow> OpenGraphData" where
  "fallbackDescription doc og =
     (if Description og = [] then
        (case firstAttr (TagAttrEquals ''meta'' ''name'' ''description'') doc ''content'' of
           None \<Rightarrow> og
         | Some desc \<Rightarrow> if desc \<noteq> [] then og\<lparr>Description := TrimSpace desc\<rparr> else og)
      else og)"

definition fallbackAuthor :: "document \<Rightarrow> OpenGraphData \<Rightarrow> OpenGraphData" where
  "fallbackAuthor doc og =
     (if Author og = [] then
        (case firstAttr (TagAttrEquals ''meta'' ''name'' ''author'') doc ''content'' of
           None \<Rightarrow> og
         | Some author \<Rightarrow> if author \<noteq> [] then og\<lparr>Author := TrimSpace author\<rparr> else og)
      else og)"

text \<open>\<open>extractFallbackMetaTags\<close>: its three \<open>if\<close> statements, one after the other.\<close>

definition extractFallbackMetaTags :: "document \<Rightarrow> OpenGraphData \<Rightarrow> OpenGraphData" where
  "extractFallbackMetaTags doc og = fallbackAuthor doc (fallbackDescription doc (fallbackTitle doc og))"

definition extractOpenGraphData :: "document \<Rightarrow> string \<Rightarrow> URL \<Rightarrow> OpenGraphData" where
  "extractOpenGraphData doc pageURL baseURL =
     (let og = extractFallbackMetaTags doc
                 (extractTwitterMetaTags doc
                   (extractOGMetaTags doc (emptyOpenGraphData\<lparr>URL := pageURL\<rparr>)))
      in og\<lparr>Image := resolveURL (Image og) baseURL,
            TwitterImage := resolveURL (TwitterImage og) baseURL\<rparr>)"

text \<open>
  The variant of \<open>extractOpenGraphData\<close> in \<open>internal/utils/cleaner.go\<close> does not call
  \<open>resolveURL\<close>: it resolves \<open>og.Image\<close> and \<open>og.TwitterImage\<close> inline, tests the prefix
  \<open>http\<close> and has no branch for a relative path.
\<close>

definition inlineResolveImage :: "string \<Rightarrow> URL \<Rightarrow> string" where
  "inlineResolveImage ogImage baseURL =
     (if ogImage \<noteq> [] \<and> \<not> HasPrefix ogImage ''http'' then
        (if HasPrefix ogImage ''//'' then ''https:'' @ ogImage
         else if HasPrefix ogImage ''/'' then Scheme baseURL @ ''://'' @ Host baseURL @ ogImage
         else ogImage)
      else ogImage)"

text \<open>
  That variant as a whole: the same three passes from the zero value, the request URL
  where no \<open>og:url\<close> was found, and the inline resolution of the two images.
\<close>

definition extractOpenGraphDataInline :: "document \<Rightarrow> string \<Rightarrow> URL \<Rightarrow> OpenGraphData" where
  "extractOpenGraphDataInline doc url baseURL =
     (let og = extractFallbackMetaTags doc
                 (extractTwitterMetaTags doc (extractOGMetaTags doc emptyOpenGraphData));
          og' = (if URL og = [] then og\<lparr>URL := url\<rparr> else og)
      in og'\<lparr>Image := inlineResolveImage (Image og') baseURL,
             TwitterImage := inlineResolveImage (TwitterImage og') baseURL\<rparr>)"

section \<open>The meta tags of a key\<close>

text \<open>
  The content of a node when its attribute \<open>k\<close> is the key and its content is not empty;
  the contents that the \<open>meta\<close> elements of a document give for a key, in document order;
  and the last element of a list, or a default for the empty list.
\<close>

definition contentIf :: "string \<Rightarrow> string \<Rightarrow> node \<Rightarrow> string option" where
  "contentIf k key s =
     (if Attr s k = Some key
      then (case Attr s ''content'' of None \<Rightarrow> None | Some c \<Rightarrow> if c = [] then None else Some c)
      else None)"

definition metaContents :: "string \<Rightarrow> string \<Rightarrow> document \<Rightarrow> string list" where
  "metaContents k key doc = List.map_filter (contentIf k key) (Find (Tag ''meta'') doc)"

definition lastOr :: "string \<Rightarrow> string list \<Rightarrow> string" where
  "lastOr d vs = (if vs = [] then d else last vs)"

section \<open>The pipeline\<close>

text \<open>
  What the cleaner gets from outside the repository is a parameter of the model: the result
  of building the logger, the HTTP request (a transport error, or the body and the URL of
  the final request), the HTML parser, the readability library, the Markdown converter and
  \<open>ReplaceAllString\<close> of the regular expressions (pattern, source, replacement).  A Go
  \<open>error\<close> is represented by its message.  Logging and the debug file
  \<open>tmp/article.html\<close> change no result and are left out.
\<close>

type_synonym error = string

record Response =
  Body :: string
  RequestURL :: URL

text \<open>
  The fields of \<open>readability.Article\<close> that the cleaner reads; the published time, when
  there is one, is held as its RFC 3339 rendering.
\<close>

record Article =
  Title :: string
  Byline :: string
  Content :: string
  TextContent :: string
  PublishedTime :: "string option"

record Env =
  BuildLogger :: "error option"
  httpGet :: "string \<Rightarrow> error + Response"
  NewDocumentFromReader :: "string \<Rightarrow> error + document"
  FromDocument :: "document \<Rightarrow> error + Article"
  ConvertString :: "string \<Rightarrow> error + string"
  ReplaceAllString :: "string \<Rightarrow> string \<Rightarrow> string \<Rightarrow> string"

record CleanedArticle =
  Title :: string
  Content :: string
  Markdown :: string
  URL :: string
  Author :: string
  Excerpt :: string
  Length :: int
  PublishedAt :: string
  OpenGraph :: "OpenGraphData option"

text \<open>The zero value \<open>CleanedArticle{}\<close>.\<close>

definition emptyCleanedArticle :: CleanedArticle where
  "emptyCleanedArticle =
     \<lparr>Title = [], Content = [], Markdown = [], URL = [], Author = [], Excerpt = [],
      Length = 0, PublishedAt = [], OpenGraph = None\<rparr>"

definition backslash :: char where
  "backslash = CHR 0x5C"

text \<open>
  The patterns of \<open>cleanTextContent\<close>, each written as in the source:
  \<open>(?i)subscribe\s+to\s+our\s+newsletter\<close> and so on.
\<close>

definition unwantedTextPatterns :: "string list" where
  "unwantedTextPatterns =
     [''(?i)subscribe'' @ backslash # ''s+to'' @ backslash # ''s+our'' @ backslash # ''s+newsletter'',
      ''(?i)follow'' @ backslash # ''s+us'' @ backslash # ''s+on'',
      ''(?i)share'' @ backslash # ''s+this'' @ backslash # ''s+article'',
      ''(?i)related'' @ backslash # ''s+articles?'',
      ''(?i)you'' @ backslash # ''s+might'' @ backslash # ''s+also'' @ backslash # ''s+like'',
      ''(?i)recommended'' @ backslash # ''s+for'' @ backslash # ''s+you'',
      ''(?i)advertisement'',
      ''(?i)sponsored'' @ backslash # ''s+content'']"

text \<open>
  \<open>cleanTextContent\<close>: the pattern \<open>\n\s*\n\s*\n+\<close> is replaced by two line feeds, the
  pattern \<open>[ \t]+\<close> by a space, every unwanted pattern by nothing, and the result is trimmed.
\<close>

definition cleanTextContent :: "Env \<Rightarrow> string \<Rightarrow> string" where
  "cleanTextContent env content =
     (let content1 = ReplaceAllString env
            (backslash # ''n'' @ backslash # ''s*'' @ backslash # ''n'' @ backslash # ''s*''
               @ backslash # ''n+'')
            content [CHR 0x0A, CHR 0x0A];
          content2 = ReplaceAllString env (''[ '' @ backslash # ''t]+'') content1 '' '';
          content3 = foldl (\<lambda>c pattern. ReplaceAllString env pattern c []) content2
                       unwantedTextPatterns
      in TrimSpace content3)"

definition fetchAndParseDocument :: "Env \<Rightarrow> string \<Rightarrow> error + (document \<times> URL)" where
  "fetchAndParseDocument env pageURL =
     (case httpGet env pageURL of
        Inl err \<Rightarrow> Inl err
      | Inr resp \<Rightarrow>
          (case NewDocumentFromReader env (Body resp) of
             Inl err \<Rightarrow> Inl err
           | Inr doc \<Rightarrow> Inr (doc, RequestURL resp)))"

text \<open>\<open>convertToMarkdown\<close>: the input itself when the converter reports an error.\<close>

definition convertToMarkdown :: "Env \<Rightarrow> string \<Rightarrow> string" where
  "convertToMarkdown env htmlContent =
     (case ConvertString env htmlContent of
        Inl err \<Rightarrow> htmlContent
      | Inr markdown \<Rightarrow> markdown)"

text \<open>
  \<open>CleanArticle\<close> returns an article and an error, as in Go.  The excerpt is taken with
  the bound \<open>200\<close>, for which \<open>generateExcerpt\<close> always returns (lemma
  \<open>generateExcerpt_200\<close> below), so \<^const>\<open>the\<close> reads a value that is there.
\<close>

definition CleanArticle :: "Env \<Rightarrow> string \<Rightarrow> CleanedArticle \<times> error option" where
  "CleanArticle env pageURL =
     (case fetchAndParseDocument env pageURL of
        Inl err \<Rightarrow> (emptyCleanedArticle, Some err)
      | Inr (doc, baseURL) \<Rightarrow>
          (let openGraphData = extractOpenGraphData doc pageURL baseURL;
               doc1 = fst (removeUnwantedElements doc);
               doc2 = processImages doc1 baseURL
           in case FromDocument env doc2 of
                Inl err \<Rightarrow> (emptyCleanedArticle, Some err)
              | Inr article \<Rightarrow>
                  (let cleanedTextContent = cleanTextContent env (TextContent article);
                       markdown = convertToMarkdown env (Article.Content article);
                       excerpt = the (generateExcerpt cleanedTextContent 200);
                       publishedAt = (case PublishedTime article of None \<Rightarrow> [] | Some t \<Rightarrow> t)
                   in (\<lparr>Title = TrimSpace (Article.Title article),
                        Content = cleanedTextContent,
                        Markdown = markdown,
                        URL = pageURL,
                        Author = TrimSpace (Byline article),
                        Excerpt = excerpt,
                        Length = int (length cleanedTextContent),
                        PublishedAt = publishedAt,
                        OpenGraph = Some openGraphData\<rparr>, None))))"

text \<open>\<open>GetCleanedArticle\<close>: the zero value when the logger cannot be built or on any error.\<close>

definition GetCleanedArticle :: "Env \<Rightarrow> string \<Rightarrow> CleanedArticle" where
  "GetCleanedArticle env url =
     (case BuildLogger env of
        Some err \<Rightarrow> emptyCleanedArticle
      | None \<Rightarrow>
          (case CleanArticle env url of
             (article, Some err) \<Rightarrow> emptyCleanedArticle
           | (article, None) \<Rightarrow> article))"

section \<open>Counting characters\<close>

text \<open>
  The number of bytes of the UTF-8 sequence that a string begins with, as Go's decoder
  accepts them; a byte that begins no valid sequence counts as one character of its own.
\<close>

definition inRange :: "nat \<Rightarrow> nat \<Rightarrow> char \<Rightarrow> bool" where
  "inRange lo hi c = (lo \<le> of_char c \<and> of_char c \<le> hi)"

fun runeLen :: "string \<Rightarrow> nat" where
  "runeLen (b0 # b1 # b2 # b3 # bs) =
     (if inRange 0xC2 0xDF b0 \<and> inRange 0x80 0xBF b1 then 2
      else if (inRange 0xE0 0xE0 b0 \<and> inRange 0xA0 0xBF b1
               \<or> (inRange 0xE1 0xEC b0 \<or> inRange 0xEE 0xEF b0) \<and> inRange 0x80 0xBF b1
               \<or> inRange 0xED 0xED b0 \<and> inRange 0x80 0x9F b1) \<and> inRange 0x80 0xBF b2 then 3
      else if (inRange 0xF0 0xF0 b0 \<and> inRange 0x90 0xBF b1
               \<or> inRange 0xF1 0xF3 b0 \<and> inRange 0x80 0xBF b1
               \<or> inRange 0xF4 0xF4 b0 \<and> inRange 0x80 0x8F b1)
              \<and> inRange 0x80 0xBF b2 \<and> inRange 0x80 0xBF b3 then 4
      else 1)"
| "runeLen [b0, b1, b2] =
     (if inRange 0xC2 0xDF b0 \<and> inRange 0x80 0xBF b1 then 2
      else if (inRange 0xE0 0xE0 b0 \<and> inRange 0xA0 0xBF b1
               \<or> (inRange 0xE1 0xEC b0 \<or> inRange 0xEE 0xEF b0) \<and> inRange 0x80 0xBF b1
               \<or> inRange 0xED 0xED b0 \<and> inRange 0x80 0x9F b1) \<and> inRange 0x80 0xBF b2 then 3
      else 1)"
| "runeLen [b0, b1] = (if inRange 0xC2 0xDF b0 \<and> inRange 0x80 0xBF b1 then 2 else 1)"
| "runeLen [b0] = 1"
| "runeLen [] = 0"

text \<open>
  The character count of a string, which is what the specification asks of the \<open>length\<close>
  field: the number of code points of its UTF-8 reading (\<open>utf8.RuneCountInString\<close>).
\<close>

fun characterCount :: "string \<Rightarrow> nat" where
  "characterCount [] = 0"
| "characterCount (c # cs) = Suc (characterCount (drop (runeLen (c # cs) - 1) cs))"

section \<open>Vocabulary of the properties\<close>

text \<open>
  A string has the shape of a scheme when it is empty or begins with \<open>http://\<close> or
  \<open>https://\<close>.  The host of a URL after its \<open>scheme://\<close>: the bytes before the first \<open>/\<close>, \<open>?\<close> or
  \<open>#\<close>.  A string has the shape of an absolute URL when it begins with \<open>http://\<close> or
  \<open>https://\<close> and a host that is not empty.
\<close>

definition schemeShape :: "string \<Rightarrow> bool" where
  "schemeShape s = (s = [] \<or> HasPrefix s ''http://'' \<or> HasPrefix s ''https://'')"

definition hostOf :: "string \<Rightarrow> string" where
  "hostOf rest = takeWhile (\<lambda>c. c \<notin> set ''/?#'') rest"

definition absoluteShape :: "string \<Rightarrow> bool" where
  "absoluteShape s =
     (HasPrefix s ''http://'' \<and> hostOf (drop 7 s) \<noteq> []
      \<or> HasPrefix s ''https://'' \<and> hostOf (drop 8 s) \<noteq> [])"

text \<open>
  The host that a raw value carries: what follows \<open>http://\<close>, \<open>https://\<close> or \<open>//\<close> when
  it begins so, and the host of the base otherwise.
\<close>

definition rawAuthority :: "string \<Rightarrow> URL \<Rightarrow> string" where
  "rawAuthority raw baseURL =
     (if HasPrefix raw ''http://'' then hostOf (drop 7 raw)
      else if HasPrefix raw ''https://'' then hostOf (drop 8 raw)
      else if HasPrefix raw ''//'' then hostOf (drop 2 raw)
      else hostOf (Host baseURL))"

text \<open>A string all of whose characters are single bytes, so that characters and bytes coincide.\<close>

definition singleByte :: "string \<Rightarrow> bool" where
  "singleByte s = list_all (\<lambda>c. of_char c < (128::nat)) s"

text \<open>
  The candidates of a picture as the specification describes them: every comma-separated
  piece of every \<open>srcset\<close> that splits into exactly two fields and whose second field,
  without a final \<open>w\<close>, is an integer; each with its URL and its width, in document order.
\<close>

definition parseCandidate :: "string \<Rightarrow> (string \<times> int) option" where
  "parseCandidate src =
     (let parts = Fields (TrimSpace src)
      in if length parts = 2
         then map_option (\<lambda>width. (parts ! 0, width)) (Atoi (TrimSuffix (parts ! 1) ''w''))
         else None)"

definition sourceCandidates :: "node \<Rightarrow> (string \<times> int) list" where
  "sourceCandidates source =
     (case Attr source ''srcset'' of
        None \<Rightarrow> []
      | Some srcset \<Rightarrow> List.map_filter parseCandidate (Split srcset (CHR '','')))"

definition candidates :: "node \<Rightarrow> (string \<times> int) list" where
  "candidates picture = concat (map sourceCandidates (Find (Tag ''source'') (children picture)))"

text \<open>The wider of the running maximum and a candidate; the maximum stays on a tie.\<close>

definition keepWider :: "string \<times> int \<Rightarrow> string \<times> int \<Rightarrow> string \<times> int" where
  "keepWider st c = (if snd c > snd st then c else st)"

section \<open>Example inputs\<close>

text \<open>A page with a script, a navigation bar, a side bar, two forms and a share line.\<close>

definition examplePage :: document where
  "examplePage =
     [Element ''html'' []
       [Element ''head'' []
         [Element ''title'' [] [TextNode ''T''], Element ''script'' [] [TextNode ''x()'']],
        Element ''body'' []
         [Element ''nav'' [] [Element ''a'' [(''href'', ''/'')] [TextNode ''home'']],
          Element ''div'' [(''class'', ''left-sidebar box'')] [Element ''p'' [] [TextNode ''ad'']],
          Element ''form'' [(''class'', ''big search-form'')] [],
          Element ''form'' [(''class'', ''contact'')] [],
          Element ''div'' [(''class'', ''story'')]
            [Element ''p'' [(''class'', ''share nav'')] [TextNode ''share''],
             Element ''p'' [] [TextNode ''text'']]]]]"

text \<open>Scenario E: no Open Graph tag, a title element.\<close>

definition helloPage :: document where
  "helloPage =
     [Element ''html'' []
       [Element ''head'' [] [Element ''title'' [] [TextNode ''Hello'']],
        Element ''body'' [] [Element ''p'' [] [TextNode ''text'']]]]"

text \<open>A page with Twitter Card tags, no Open Graph tag and a title element.\<close>

definition twitterPage :: document where
  "twitterPage =
     [Element ''html'' []
       [Element ''head'' []
         [Element ''meta'' [(''name'', ''twitter:title''), (''content'', ''Tw'')] [],
          Element ''meta'' [(''name'', ''twitter:image''), (''content'', ''img/t.png'')] [],
          Element ''title'' [] [TextNode ''Hello'']],
        Element ''body'' [] []]]"

definition siteBase :: URL where
  "siteBase = \<lparr>Scheme = ''https'', Host = ''site.com''\<rparr>"

text \<open>A page whose Open Graph image has a scheme-relative form without a host.\<close>

definition hostlessPage :: document where
  "hostlessPage =
     [Element ''html'' []
       [Element ''head'' []
         [Element ''meta'' [(''property'', ''og:image''), (''content'', ''///x.png'')] []],
        Element ''body'' [] []]]"

text \<open>A page with a relative Open Graph image, a picture and a plain image.\<close>

definition imagePage :: document where
  "imagePage =
     [Element ''html'' []
       [Element ''head'' []
         [Element ''meta'' [(''property'', ''og:image''), (''content'', ''img/a.png'')] []],
        Element ''body'' []
         [Element ''picture'' []
           [Element ''source'' [(''srcset'', ''a.jpg 400w, b.webp 1200w, c.jpg 800w'')] [],
            Element ''img'' [(''src'', ''small.jpg''), (''loading'', ''lazy'')] []],
          Element ''img'' [(''src'', ''/z.webp''), (''srcset'', ''z2.webp 2x'')] []]]]"

text \<open>The picture of scenario C, and a picture whose only candidate has the width \<open>0\<close>.\<close>

definition scenarioPicture :: node where
  "scenarioPicture =
     Element ''picture'' []
       [Element ''source'' [(''srcset'', ''a.jpg 400w, b.jpg 1200w, c.jpg 800w'')] [],
        Element ''img'' [(''src'', ''small.jpg'')] []]"

definition zeroWidthPicture :: node where
  "zeroWidthPicture =
     Element ''picture'' []
       [Element ''source'' [(''srcset'', ''a.jpg 0w'')] [],
        Element ''img'' [(''src'', ''small.jpg'')] []]"

text \<open>
  Three settings of the outside world.  In the first the request fails.  In the second the
  page is \<open>helloPage\<close>, the readability library returns an article whose text is the letter
  e with an acute accent (two bytes in UTF-8, one character), and no pattern of the regular
  expressions occurs in what they are given.  The third differs in the Markdown converter,
  which succeeds with the empty string.
\<close>

definition failingEnv :: Env where
  "failingEnv =
     \<lparr>BuildLogger = None,
      httpGet = (\<lambda>u. Inl ''no such host''),
      NewDocumentFromReader = (\<lambda>b. Inr helloPage),
      FromDocument = (\<lambda>d. Inl ''no content''),
      ConvertString = (\<lambda>h. Inr h),
      ReplaceAllString = (\<lambda>pattern src repl. src)\<rparr>"

definition accentEnv :: Env where
  "accentEnv =
     \<lparr>BuildLogger = None,
      httpGet = (\<lambda>u. Inr \<lparr>Body = ''<title>Hello</title><p>text</p>'', RequestURL = siteBase\<rparr>),
      NewDocumentFromReader = (\<lambda>b. Inr helloPage),
      FromDocument = (\<lambda>d. Inr \<lparr>Article.Title = ''Hello'', Byline = [],
                                 Article.Content = ''<p>text</p>'',
                                 TextContent = [CHR 0xC3, CHR 0xA9],
                                 PublishedTime = None\<rparr>),
      ConvertString = (\<lambda>h. Inr ''text''),
      ReplaceAllString = (\<lambda>pattern src repl. src)\<rparr>"

definition blankMarkdownEnv :: Env where
  "blankMarkdownEnv = accentEnv\<lparr>ConvertString := (\<lambda>h. Inr [])\<rparr>"

section \<open>Properties of the string functions\<close>

lemma HasPrefix_iff: "HasPrefix s p \<longleftrightarrow> prefix p s"
  by (induction s p rule: HasPrefix.induct) auto

lemma Index_char_None: "Index s [c] = None \<longleftrightarrow> c \<notin> set s"
  by (induction s) auto

lemma Index_char_Some:
  "Index s [c] = Some j \<Longrightarrow> j < length s \<and> s ! j = c \<and> (\<forall>i<j. s ! i \<noteq> c)"
proof (induction s arbitrary: j)
  case Nil
  then show ?case by simp
next
  case (Cons a s)
  show ?case
  proof (cases "a = c")
    case True
    with Cons.prems show ?thesis by simp
  next
    case False
    with Cons.prems obtain j' where j': "Index s [c] = Some j'" "j = Suc j'"
      by auto
    from Cons.IH [OF j'(1)] False j'(2) show ?thesis
      by (auto simp: nth_Cons split: nat.splits)
  qed
qed

lemma LastIndex_none: "c \<notin> set s \<Longrightarrow> LastIndex s [c] = - 1"
  by (simp add: LastIndex_def Index_char_None [THEN iffD2])

text \<open>When the byte occurs, \<open>LastIndex\<close> is the position of its last occurrence.\<close>

lemma LastIndex_some:
  assumes "c \<in> set s"
  shows "\<exists>k. LastIndex s [c] = int k \<and> k < length s \<and> s ! k = c
             \<and> (\<forall>j. k < j \<and> j < length s \<longrightarrow> s ! j \<noteq> c)"
proof -
  from assms have "Index (rev s) [c] \<noteq> None"
    by (simp add: Index_char_None)
  then obtain j where j: "Index (rev s) [c] = Some j" by auto
  from Index_char_Some [OF j]
  have jl: "j < length s" and jc: "rev s ! j = c" and jm: "\<forall>i<j. rev s ! i \<noteq> c"
    by auto
  let ?k = "length s - 1 - j"
  have "LastIndex s [c] = int ?k"
    using jl j by (simp add: LastIndex_def)
  moreover have "?k < length s" using jl by simp
  moreover have "s ! ?k = c" using jc jl by (simp add: rev_nth)
  moreover have "\<forall>i. ?k < i \<and> i < length s \<longrightarrow> s ! i \<noteq> c"
  proof (intro allI impI)
    fix i assume i: "?k < i \<and> i < length s"
    then have "length s - 1 - i < j" by arith
    with jm have "rev s ! (length s - 1 - i) \<noteq> c" by blast
    moreover have "rev s ! (length s - 1 - i) = s ! i"
    proof -
      have "length s - 1 - i < length s" using i by arith
      then have "rev s ! (length s - 1 - i) = s ! (length s - Suc (length s - 1 - i))"
        by (rule rev_nth)
      moreover have "length s - Suc (length s - 1 - i) = i" using i by arith
      ultimately show ?thesis by simp
    qed
    ultimately show "s ! i \<noteq> c" by simp
  qed
  ultimately show ?thesis by blast
qed

section \<open>Properties of the URL resolver\<close>

lemma resolveURL_cases:
  "resolveURL raw base =
     (if raw = [] then []
      else if prefix ''http://'' raw \<or> prefix ''https://'' raw then raw
      else if prefix ''//'' raw then ''https:'' @ raw
      else if prefix ''/'' raw then Scheme base @ ''://'' @ Host base @ raw
      else Scheme base @ ''://'' @ Host base @ ''/'' @ raw)"
  by (simp add: resolveURL_def HasPrefix_iff)

lemma resolveURL_absolute:
  assumes "Scheme base = ''http'' \<or> Scheme base = ''https''"
  shows "resolveURL raw base = [] \<or> prefix ''http://'' (resolveURL raw base)
         \<or> prefix ''https://'' (resolveURL raw base)"
  using assms by (auto simp: resolveURL_cases prefix_def)

text \<open>
  Claim C3.  For every raw string and every base, \<open>resolveURL\<close> returns the empty string
  for the empty string, the raw string itself when it begins with \<open>http://\<close> or
  \<open>https://\<close>, \<open>https:\<close> followed by the raw string when it begins with \<open>//\<close>, scheme,
  \<open>://\<close>, host and the raw string when it begins with a single \<open>/\<close>, and otherwise scheme,
  \<open>://\<close>, host, \<open>/\<close> and the raw string, with no merging and no treatment of \<open>..\<close>.
\<close>

theorem resolveURL_spec:
  "resolveURL [] base = [] \<and>
   (prefix ''http://'' raw \<or> prefix ''https://'' raw \<longrightarrow> resolveURL raw base = raw) \<and>
   (prefix ''//'' raw \<longrightarrow> resolveURL raw base = ''https:'' @ raw) \<and>
   (prefix ''/'' raw \<and> \<not> prefix ''//'' raw \<longrightarrow>
      resolveURL raw base = Scheme base @ ''://'' @ Host base @ raw) \<and>
   (raw \<noteq> [] \<and> \<not> prefix ''http://'' raw \<and> \<not> prefix ''https://'' raw \<and> \<not> prefix ''/'' raw \<longrightarrow>
      resolveURL raw base = Scheme base @ ''://'' @ Host base @ ''/'' @ raw)"
  by (auto simp: resolveURL_cases prefix_def)

text \<open>The two scenarios of the specification, an absolute URL and a path with \<open>..\<close>.\<close>

theorem resolveURL_spec_witness:
  "resolveURL ''/img/a.png'' \<lparr>Scheme = ''https'', Host = ''site.com''\<rparr>
     = ''https://site.com/img/a.png'' \<and>
   resolveURL ''//cdn.example.com/x.png'' \<lparr>Scheme = ''https'', Host = ''site.com''\<rparr>
     = ''https://cdn.example.com/x.png'' \<and>
   resolveURL ''http://a.org/x'' \<lparr>Scheme = ''https'', Host = ''site.com''\<rparr> = ''http://a.org/x'' \<and>
   resolveURL ''img/../a.png'' \<lparr>Scheme = ''https'', Host = ''site.com''\<rparr>
     = ''https://site.com/img/../a.png''"
  using resolveURL_spec [of "\<lparr>Scheme = ''https'', Host = ''site.com''\<rparr>" "''/img/a.png''"]
    resolveURL_spec [of "\<lparr>Scheme = ''https'', Host = ''site.com''\<rparr>" "''//cdn.example.com/x.png''"]
    resolveURL_spec [of "\<lparr>Scheme = ''https'', Host = ''site.com''\<rparr>" "''http://a.org/x''"]
    resolveURL_spec [of "\<lparr>Scheme = ''https'', Host = ''site.com''\<rparr>" "''img/../a.png''"]
  by simp

text \<open>
  Claim C10.  For a base whose scheme is \<open>http\<close> or \<open>https\<close>, resolving twice is resolving
  once: every result is empty or begins with \<open>http://\<close> or \<open>https://\<close>, and such a string
  is returned unchanged.
\<close>

theorem resolveURL_idempotent:
  assumes "Scheme base = ''http'' \<or> Scheme base = ''https''"
  shows "resolveURL (resolveURL raw base) base = resolveURL raw base \<and>
         (resolveURL raw base = [] \<or> prefix ''http://'' (resolveURL raw base)
          \<or> prefix ''https://'' (resolveURL raw base))"
proof -
  have abs: "resolveURL raw base = [] \<or> prefix ''http://'' (resolveURL raw base)
         \<or> prefix ''https://'' (resolveURL raw base)"
    using assms by (rule resolveURL_absolute)
  then have "resolveURL (resolveURL raw base) base = resolveURL raw base"
    by (auto simp: resolveURL_cases [of "resolveURL raw base"])
  with abs show ?thesis by blast
qed

theorem resolveURL_idempotent_witness:
  "Scheme \<lparr>Scheme = ''http'', Host = ''site.com''\<rparr> = ''http'' \<and>
   resolveURL (resolveURL ''img/a.png'' \<lparr>Scheme = ''http'', Host = ''site.com''\<rparr>)
      \<lparr>Scheme = ''http'', Host = ''site.com''\<rparr>
     = resolveURL ''img/a.png'' \<lparr>Scheme = ''http'', Host = ''site.com''\<rparr> \<and>
   resolveURL ''img/a.png'' \<lparr>Scheme = ''http'', Host = ''site.com''\<rparr> = ''http://site.com/img/a.png''"
  using resolveURL_idempotent [of "\<lparr>Scheme = ''http'', Host = ''site.com''\<rparr>" "''img/a.png''"]
  by (simp add: resolveURL_def)

section \<open>Properties of the excerpt generator\<close>

lemma generateExcerpt_negative:
  "maxLength < int (length content) \<Longrightarrow> maxLength < 0 \<Longrightarrow> generateExcerpt content maxLength = None"
  by (simp add: generateExcerpt_def)

lemma generateExcerpt_cut:
  assumes m: "0 \<le> maxLength" "maxLength < int (length content)"
    and k: "k < nat maxLength" "content ! k = CHR '' ''"
      "\<forall>j. k < j \<and> j < nat maxLength \<longrightarrow> content ! j \<noteq> CHR '' ''"
    and q: "0 < k" "maxLength - 50 < int k"
  shows "generateExcerpt content maxLength = Some (take k content @ ''...'')"
proof -
  let ?e = "take (nat maxLength) content"
  have len: "length ?e = nat maxLength" using m by simp
  have "CHR '' '' \<in> set ?e"
    using k(1,2) len by (metis in_set_conv_nth nth_take)
  from LastIndex_some [OF this] obtain k' where k':
    "LastIndex ?e '' '' = int k'" "k' < length ?e" "?e ! k' = CHR '' ''"
    "\<forall>j. k' < j \<and> j < length ?e \<longrightarrow> ?e ! j \<noteq> CHR '' ''"
    by blast
  have "k' = k"
  proof (rule ccontr)
    assume "k' \<noteq> k"
    then consider "k' < k" | "k < k'" by arith
    then show False
    proof cases
      case 1
      with k'(4) k(1) len have "?e ! k \<noteq> CHR '' ''" by simp
      with k(1,2) show False by simp
    next
      case 2
      with k(3) k'(2) len have "content ! k' \<noteq> CHR '' ''" by simp
      with k'(2,3) len show False by simp
    qed
  qed
  with k'(1) have "LastIndex ?e '' '' = int k" by simp
  then show ?thesis
    using m q k(1) by (simp add: generateExcerpt_def Let_def min_def)
qed

lemma generateExcerpt_uncut:
  assumes m: "0 \<le> maxLength" "maxLength < int (length content)"
    and n: "\<forall>k. k < nat maxLength \<and> content ! k = CHR '' '' \<longrightarrow> \<not> (0 < k \<and> maxLength - 50 < int k)"
  shows "generateExcerpt content maxLength = Some (take (nat maxLength) content @ ''...'')"
proof -
  let ?e = "take (nat maxLength) content"
  have len: "length ?e = nat maxLength" using m by simp
  have "\<not> (LastIndex ?e '' '' > 0 \<and> LastIndex ?e '' '' > maxLength - 50)"
  proof (cases "CHR '' '' \<in> set ?e")
    case False
    then show ?thesis by (simp add: LastIndex_none)
  next
    case True
    from LastIndex_some [OF this] obtain k' where k':
      "LastIndex ?e '' '' = int k'" "k' < length ?e" "?e ! k' = CHR '' ''"
      by blast
    then have "k' < nat maxLength \<and> content ! k' = CHR '' ''" using len by simp
    with n have "\<not> (0 < k' \<and> maxLength - 50 < int k')" by blast
    with k'(1) show ?thesis by simp
  qed
  then show ?thesis
    using m by (auto simp: generateExcerpt_def Let_def)
qed

lemma generateExcerpt_bound:
  assumes m: "0 \<le> maxLength" "maxLength < int (length content)"
  shows "\<exists>pre. generateExcerpt content maxLength = Some (pre @ ''...'')
           \<and> prefix pre content \<and> int (length (pre @ ''...'')) \<le> maxLength + 3"
proof -
  let ?e = "take (nat maxLength) content"
  let ?l = "LastIndex ?e '' ''"
  let ?pre = "if ?l > 0 \<and> ?l > maxLength - 50 then take (nat ?l) ?e else ?e"
  have "generateExcerpt content maxLength = Some (?pre @ ''...'')"
    using m by (simp add: generateExcerpt_def Let_def)
  moreover have "prefix ?pre content"
    by (auto simp: take_is_prefix intro: prefix_order.trans [OF take_is_prefix take_is_prefix])
  moreover have "int (length (?pre @ ''...'')) \<le> maxLength + 3"
    using m by auto
  ultimately show ?thesis by blast
qed

text \<open>
  Claim C6 as stated fails at the boundary: with \<open>maxLength = 51\<close> the only space of the
  prefix is at position \<open>1 = maxLength - 50\<close>, so it occurs ``no earlier than
  \<open>maxLength - 50\<close>'', and yet the excerpt is not cut there: the source asks for
  \<open>lastSpace > maxLength-50\<close>.
\<close>

theorem generateExcerpt_boundary_counterexample:
  "''a xxxxxxxxxxxxxxxxxxxxxxxxxxxxxxxxxxxxxxxxxxxxxxxxxx'' ! 1 = CHR '' '' \<and>
   (51 :: int) - 50 \<le> 1 \<and>
   generateExcerpt ''a xxxxxxxxxxxxxxxxxxxxxxxxxxxxxxxxxxxxxxxxxxxxxxxxxx'' 51 \<noteq> Some ''a...'' \<and>
   generateExcerpt ''a xxxxxxxxxxxxxxxxxxxxxxxxxxxxxxxxxxxxxxxxxxxxxxxxxx'' 51
     = Some ''a xxxxxxxxxxxxxxxxxxxxxxxxxxxxxxxxxxxxxxxxxxxxxxxxx...''"
  by (simp add: generateExcerpt_def LastIndex_def)



text \<open>On single-byte characters the character count is the length.\<close>

lemma runeLen_singleByte: "of_char c < (128::nat) \<Longrightarrow> runeLen (c # cs) = 1"
proof -
  assume c: "of_char c < (128::nat)"
  then have r: "\<And>lo hi. 128 \<le> lo \<Longrightarrow> \<not> inRange lo hi c" by (simp add: inRange_def)
  show ?thesis
  proof (cases cs)
    case Nil
    then show ?thesis by simp
  next
    case 1: (Cons b1 cs1)
    show ?thesis
    proof (cases cs1)
      case Nil
      with 1 show ?thesis by (simp add: r)
    next
      case 2: (Cons b2 cs2)
      show ?thesis
      proof (cases cs2)
        case Nil
        with 1 2 show ?thesis by (simp add: r)
      next
        case (Cons b3 cs3)
        with 1 2 show ?thesis by (simp add: r)
      qed
    qed
  qed
qed

lemma characterCount_singleByte: "singleByte s \<Longrightarrow> characterCount s = length s"
  by (induction s) (simp_all add: singleByte_def runeLen_singleByte)

lemma singleByte_prefix: "singleByte s \<Longrightarrow> prefix p s \<Longrightarrow> singleByte p"
  by (auto simp: singleByte_def prefix_def)

lemma singleByte_append: "singleByte (s @ t) \<longleftrightarrow> singleByte s \<and> singleByte t"
  by (simp add: singleByte_def)

lemma singleByte_dots: "singleByte ''...''"
  by (simp add: singleByte_def)

text \<open>
  Claim C6, amended.  For a content of single-byte characters: a content of at most
  \<open>maxLength\<close> characters is returned unchanged.  When \<open>0 \<le> maxLength\<close> and the content
  has more than \<open>maxLength\<close> characters, the result is a prefix of the content followed by
  \<open>...\<close> and has at most \<open>maxLength + 3\<close> characters; the prefix ends before the last
  space among the first \<open>maxLength\<close> characters when that space is at a position greater
  than \<open>0\<close> and greater than \<open>maxLength - 50\<close>, and is the first \<open>maxLength\<close> characters
  when no space of them is at such a position.  Contents with characters of several bytes
  are outside the statement.
\<close>

theorem generateExcerpt_amended:
  assumes "singleByte content"
  shows
  "(int (characterCount content) \<le> maxLength \<longrightarrow> generateExcerpt content maxLength = Some content) \<and>
   (0 \<le> maxLength \<and> maxLength < int (characterCount content) \<longrightarrow>
      (\<exists>pre. generateExcerpt content maxLength = Some (pre @ ''...'')
          \<and> prefix pre content \<and> int (characterCount (pre @ ''...'')) \<le> maxLength + 3) \<and>
      (\<forall>k. k < nat maxLength \<and> content ! k = CHR '' '' \<and>
            (\<forall>j. k < j \<and> j < nat maxLength \<longrightarrow> content ! j \<noteq> CHR '' '') \<and>
            0 < k \<and> maxLength - 50 < int k \<longrightarrow>
          generateExcerpt content maxLength = Some (take k content @ ''...'')) \<and>
      ((\<forall>k. k < nat maxLength \<and> content ! k = CHR '' '' \<longrightarrow> \<not> (0 < k \<and> maxLength - 50 < int k)) \<longrightarrow>
          generateExcerpt content maxLength = Some (take (nat maxLength) content @ ''...'')))"
proof -
  have cc: "characterCount content = length content"
    using assms by (rule characterCount_singleByte)
  show ?thesis
  proof (intro conjI impI allI)
    assume "int (characterCount content) \<le> maxLength"
    then show "generateExcerpt content maxLength = Some content"
      by (simp add: generateExcerpt_def cc)
  next
    assume m: "0 \<le> maxLength \<and> maxLength < int (characterCount content)"
    then have "\<exists>pre. generateExcerpt content maxLength = Some (pre @ ''...'')
          \<and> prefix pre content \<and> int (length (pre @ ''...'')) \<le> maxLength + 3"
      by (simp only: cc generateExcerpt_bound)
    then obtain pre where pre: "generateExcerpt content maxLength = Some (pre @ ''...'')"
      "prefix pre content" "int (length (pre @ ''...'')) \<le> maxLength + 3" by blast
    from assms pre(2) have "singleByte pre" by (rule singleByte_prefix)
    then have "singleByte (pre @ ''...'')" by (simp only: singleByte_append singleByte_dots)
    then have "characterCount (pre @ ''...'') = length (pre @ ''...'')"
      by (rule characterCount_singleByte)
    with pre show "\<exists>pre. generateExcerpt content maxLength = Some (pre @ ''...'')
          \<and> prefix pre content \<and> int (characterCount (pre @ ''...'')) \<le> maxLength + 3"
      by auto
  next
    fix k
    assume "0 \<le> maxLength \<and> maxLength < int (characterCount content)"
      and "k < nat maxLength \<and> content ! k = CHR '' '' \<and>
            (\<forall>j. k < j \<and> j < nat maxLength \<longrightarrow> content ! j \<noteq> CHR '' '') \<and>
            0 < k \<and> maxLength - 50 < int k"
    then show "generateExcerpt content maxLength = Some (take k content @ ''...'')"
      unfolding cc by (intro generateExcerpt_cut) blast+
  next
    assume "0 \<le> maxLength \<and> maxLength < int (characterCount content)"
      and "\<forall>k. k < nat maxLength \<and> content ! k = CHR '' '' \<longrightarrow> \<not> (0 < k \<and> maxLength - 50 < int k)"
    then show "generateExcerpt content maxLength = Some (take (nat maxLength) content @ ''...'')"
      unfolding cc by (intro generateExcerpt_uncut) blast+
  qed
qed

theorem generateExcerpt_amended_witness:
  "singleByte ''hello world foo'' \<and>
   generateExcerpt ''hello'' 200 = Some ''hello'' \<and>
   generateExcerpt ''hello world foo'' 13 = Some ''hello world...'' \<and>
   generateExcerpt ''abcdefgh'' 3 = Some ''abc...''"
proof -
  have s1: "singleByte ''hello''" by (simp add: singleByte_def)
  have s2: "singleByte ''hello world foo''" by (simp add: singleByte_def)
  have s3: "singleByte ''abcdefgh''" by (simp add: singleByte_def)
  note c1 = characterCount_singleByte [OF s1]
  note c2 = characterCount_singleByte [OF s2]
  note c3 = characterCount_singleByte [OF s3]
  have a: "generateExcerpt ''hello'' 200 = Some ''hello''"
    using generateExcerpt_amended [OF s1, of 200] by (simp add: c1 del: characterCount.simps)
  have pre: "(0::int) \<le> 13 \<and> 13 < int (characterCount ''hello world foo'')" by (simp add: c2 del: characterCount.simps)
  have sp: "\<forall>j. 11 < j \<and> j < nat 13 \<longrightarrow> ''hello world foo'' ! j \<noteq> CHR '' ''"
  proof (intro allI impI)
    fix j :: nat assume "11 < j \<and> j < nat 13"
    then have "j = 12" by arith
    then show "''hello world foo'' ! j \<noteq> CHR '' ''" by simp
  qed
  have "generateExcerpt ''hello world foo'' 13 = Some (take 11 ''hello world foo'' @ ''...'')"
    using generateExcerpt_amended [OF s2, of 13, THEN conjunct2, THEN mp, OF pre,
        THEN conjunct2, THEN conjunct1, THEN spec, of 11] sp
    by (simp del: characterCount.simps)
  then have b: "generateExcerpt ''hello world foo'' 13 = Some ''hello world...''" by simp
  have pre3: "(0::int) \<le> 3 \<and> 3 < int (characterCount ''abcdefgh'')" by (simp add: c3 del: characterCount.simps)
  have ns: "\<forall>k. k < nat 3 \<and> ''abcdefgh'' ! k = CHR '' '' \<longrightarrow> \<not> (0 < k \<and> (3::int) - 50 < int k)"
  proof (intro allI impI)
    fix k :: nat assume k: "k < nat 3 \<and> ''abcdefgh'' ! k = CHR '' ''"
    then have "k = 0 \<or> k = 1 \<or> k = 2" by arith
    with k show "\<not> (0 < k \<and> (3::int) - 50 < int k)" by auto
  qed
  have "generateExcerpt ''abcdefgh'' 3 = Some (take (nat 3) ''abcdefgh'' @ ''...'')"
    using generateExcerpt_amended [OF s3, of 3, THEN conjunct2, THEN mp, OF pre3,
        THEN conjunct2, THEN conjunct2, THEN mp, OF ns] .
  then have c: "generateExcerpt ''abcdefgh'' 3 = Some ''abc...''" by (simp add: numeral_3_eq_3)
  from s2 a b c show ?thesis by blast
qed

text \<open>Scenario D of the specification: sixty times \<open>word\<close> and a space, cut at the space at position 199.\<close>

lemma generateExcerpt_scenario_D: "generateExcerpt (concat (replicate 60 ''word '')) 200
    = Some (take 199 (concat (replicate 60 ''word '')) @ ''...'')"
  by code_simp

section \<open>Properties of the pruner\<close>

lemma findNode_concat_empty:
  "(\<And>x. x \<in> set xs \<Longrightarrow> concat (map (findNode P) (f x)) = []) \<Longrightarrow>
   concat (map (findNode P) (concat (map f xs))) = []"
  by (induction xs) auto

lemma findNode_removeNode_same: "concat (map (findNode P) (removeNode P n)) = []"
proof (induction P n rule: removeNode.induct)
  case (1 P t)
  show ?case by simp
next
  case (2 P tg as cs)
  show ?case
  proof (cases "P tg as")
    case True
    then show ?thesis by simp
  next
    case False
    have "concat (map (findNode P) (concat (map (removeNode P) cs))) = []"
      by (rule findNode_concat_empty) (rule "2.IH" [OF False])
    with False show ?thesis by simp
  qed
qed

lemma findNode_removeNode_other:
  "findNode P n = [] \<Longrightarrow> concat (map (findNode P) (removeNode Q n)) = []"
proof (induction Q n rule: removeNode.induct)
  case (1 Q t)
  show ?case by simp
next
  case (2 Q tg as cs)
  show ?case
  proof (cases "Q tg as")
    case True
    then show ?thesis by simp
  next
    case False
    from "2.prems" have nP: "\<not> P tg as" and cs: "\<And>x. x \<in> set cs \<Longrightarrow> findNode P x = []"
      by (auto split: if_splits)
    have "concat (map (findNode P) (concat (map (removeNode Q) cs))) = []"
      by (rule findNode_concat_empty) (rule "2.IH" [OF False _ cs])
    with False nP show ?thesis by simp
  qed
qed

lemma Find_Remove_same: "Find sel (Remove sel d) = []"
  unfolding Find_def Remove_def
  by (rule findNode_concat_empty) (rule findNode_removeNode_same)

lemma Find_Remove_other: "Find sel d = [] \<Longrightarrow> Find sel (Remove sel' d) = []"
  unfolding Find_def Remove_def
  by (rule findNode_concat_empty) (rule findNode_removeNode_other, simp)

lemma pruneStep_clean: "Find sel (fst (pruneStep st sel)) = []"
  by (simp add: pruneStep_def Let_def Find_Remove_same)

lemma pruneStep_keeps_clean: "Find sel (fst st) = [] \<Longrightarrow> Find sel (fst (pruneStep st sel')) = []"
  by (simp add: pruneStep_def Let_def Find_Remove_other)

lemma foldl_pruneStep_keeps_clean:
  "Find sel (fst st) = [] \<Longrightarrow> Find sel (fst (foldl pruneStep st sels)) = []"
  by (induction sels arbitrary: st) (simp_all add: pruneStep_keeps_clean)

lemma foldl_pruneStep_clean:
  "sel \<in> set sels \<Longrightarrow> Find sel (fst (foldl pruneStep st sels)) = []"
proof (induction sels arbitrary: st)
  case Nil
  then show ?case by simp
next
  case (Cons a sels)
  show ?case
  proof (cases "sel = a")
    case True
    then show ?thesis
      by (simp add: foldl_pruneStep_keeps_clean pruneStep_clean)
  next
    case False
    with Cons.prems have "sel \<in> set sels" by simp
    then show ?thesis by (simp add: Cons.IH)
  qed
qed

lemma foldl_pruneStep_fixed:
  "(\<And>sel. sel \<in> set sels \<Longrightarrow> Find sel (fst st) = []) \<Longrightarrow> foldl pruneStep st sels = st"
proof (induction sels arbitrary: st)
  case Nil
  show ?case by simp
next
  case (Cons a sels)
  have "pruneStep st a = st"
    using Cons.prems [of a] by (simp add: pruneStep_def)
  with Cons show ?case by simp
qed

text \<open>
  Claim C5.  Pruning is idempotent: on a document that has been pruned, a second pass of
  all the removal rules removes no element (its count is \<open>0\<close>) and leaves the tree as it is.
\<close>

theorem removeUnwantedElements_idempotent:
  "removeUnwantedElements (fst (removeUnwantedElements doc)) = (fst (removeUnwantedElements doc), 0)"
proof -
  let ?d = "fst (removeUnwantedElements doc)"
  have "\<And>sel. sel \<in> set unwantedSelectors \<Longrightarrow> Find sel (fst (?d, 0::nat)) = []"
    by (simp add: removeUnwantedElements_def foldl_pruneStep_clean)
  then have "foldl pruneStep (?d, 0) unwantedSelectors = (?d, 0)"
    by (rule foldl_pruneStep_fixed)
  then show ?thesis
    by (simp add: removeUnwantedElements_def)
qed

lemma removeUnwantedElements_examplePage:
  "removeUnwantedElements examplePage =
     ([Element ''html'' []
        [Element ''head'' [] [Element ''title'' [] [TextNode ''T'']],
         Element ''body'' []
          [Element ''form'' [(''class'', ''big search-form'')] [],
           Element ''div'' [(''class'', ''story'')] [Element ''p'' [] [TextNode ''text'']]]]], 5)"
  by code_simp

theorem removeUnwantedElements_idempotent_witness:
  "removeUnwantedElements
     [Element ''html'' []
        [Element ''head'' [] [Element ''title'' [] [TextNode ''T'']],
         Element ''body'' []
          [Element ''form'' [(''class'', ''big search-form'')] [],
           Element ''div'' [(''class'', ''story'')] [Element ''p'' [] [TextNode ''text'']]]]]
   = ([Element ''html'' []
        [Element ''head'' [] [Element ''title'' [] [TextNode ''T'']],
         Element ''body'' []
          [Element ''form'' [(''class'', ''big search-form'')] [],
           Element ''div'' [(''class'', ''story'')] [Element ''p'' [] [TextNode ''text'']]]]], 0)"
  using removeUnwantedElements_idempotent [of examplePage]
  by (simp add: removeUnwantedElements_examplePage)

section \<open>Properties of the metadata extractor\<close>

lemma map_filter_append: "List.map_filter g (xs @ ys) = List.map_filter g xs @ List.map_filter g ys"
  by (simp add: List.map_filter_def)

lemma map_filter_concat:
  "List.map_filter g (concat xss) = concat (map (List.map_filter g) xss)"
  by (induction xss) (simp_all add: map_filter_append)

lemma map_filter_findNode_cong:
  assumes "\<And>tg as cs. g (Element tg as cs) \<noteq> None \<Longrightarrow> P tg as = Q tg as"
  shows "List.map_filter g (findNode P n) = List.map_filter g (findNode Q n)"
proof (induction n)
  case (TextNode t)
  show ?case by simp
next
  case (Element tg as cs)
  have kids: "map (\<lambda>n. List.map_filter g (findNode P n)) cs
            = map (\<lambda>n. List.map_filter g (findNode Q n)) cs"
    using Element.IH by simp
  have hd: "List.map_filter g (if P tg as then [Element tg as cs] else [])
          = List.map_filter g (if Q tg as then [Element tg as cs] else [])"
  proof (cases "g (Element tg as cs)")
    case None
    then show ?thesis by simp
  next
    case (Some a)
    then have "g (Element tg as cs) \<noteq> None" by simp
    then have "P tg as = Q tg as" by (rule assms)
    then show ?thesis by (simp only:)
  qed
  have "List.map_filter g (findNode P (Element tg as cs))
      = List.map_filter g (if P tg as then [Element tg as cs] else [])
        @ concat (map (\<lambda>n. List.map_filter g (findNode P n)) cs)"
    by (simp add: map_filter_append map_filter_concat comp_def)
  also have "\<dots> = List.map_filter g (if Q tg as then [Element tg as cs] else [])
        @ concat (map (\<lambda>n. List.map_filter g (findNode Q n)) cs)"
    by (simp only: kids hd)
  also have "\<dots> = List.map_filter g (findNode Q (Element tg as cs))"
    by (simp add: map_filter_append map_filter_concat comp_def)
  finally show ?case .
qed

lemma map_filter_Find_cong:
  assumes "\<And>tg as cs. g (Element tg as cs) \<noteq> None \<Longrightarrow> matches sel tg as = matches sel' tg as"
  shows "List.map_filter g (Find sel doc) = List.map_filter g (Find sel' doc)"
proof -
  have "\<And>n. List.map_filter g (findNode (matches sel) n) = List.map_filter g (findNode (matches sel') n)"
    by (rule map_filter_findNode_cong) (rule assms)
  then have eq: "(\<lambda>n. List.map_filter g (findNode (matches sel) n))
               = (\<lambda>n. List.map_filter g (findNode (matches sel') n))"
    by (rule ext)
  have "List.map_filter g (Find sel doc)
      = concat (map (\<lambda>n. List.map_filter g (findNode (matches sel) n)) doc)"
    by (simp add: Find_def map_filter_concat comp_def)
  also have "\<dots> = concat (map (\<lambda>n. List.map_filter g (findNode (matches sel') n)) doc)"
    by (simp only: eq)
  also have "\<dots> = List.map_filter g (Find sel' doc)"
    by (simp add: Find_def map_filter_concat comp_def)
  finally show ?thesis .
qed

lemma map_of_list_ex: "map_of as k = Some v \<Longrightarrow> list_ex (\<lambda>a. fst a = k \<and> snd a = v) as"
  by (induction as) (auto split: if_splits)

lemma contentIf_prefix_match:
  assumes "contentIf k key (Element tg as cs) \<noteq> None" and "HasPrefix key p" and "p \<noteq> []"
  shows "matches (TagAttrPrefix t k p) tg as = matches (Tag t) tg as"
proof -
  from assms(1) have "map_of as k = Some key"
    by (auto simp: contentIf_def split: if_splits)
  then have "list_ex (\<lambda>a. fst a = k \<and> snd a = key) as" by (rule map_of_list_ex)
  with assms(2) have "list_ex (\<lambda>a. fst a = k \<and> HasPrefix (snd a) p) as"
    by (auto simp: list_ex_iff)
  with assms(3) show ?thesis by simp
qed

lemma metaContents_prefix:
  assumes "HasPrefix key p" and "p \<noteq> []"
  shows "List.map_filter (contentIf k key) (Find (TagAttrPrefix ''meta'' k p) doc) = metaContents k key doc"
  unfolding metaContents_def
  by (rule map_filter_Find_cong) (rule contentIf_prefix_match [OF _ assms])

lemma map_filter_snoc:
  "List.map_filter g (xs @ [x]) = List.map_filter g xs @ (case g x of None \<Rightarrow> [] | Some y \<Rightarrow> [y])"
  by (simp add: map_filter_append split: option.splits)

lemma lastOr_snoc:
  "lastOr d (List.map_filter g (xs @ [x]))
     = (case g x of None \<Rightarrow> lastOr d (List.map_filter g xs) | Some y \<Rightarrow> y)"
  by (simp add: map_filter_snoc lastOr_def split: option.splits)

lemma foldl_lastOr:
  assumes "\<And>og m. sel (step og m) = (case g m of None \<Rightarrow> sel og | Some y \<Rightarrow> y)"
  shows "sel (foldl step og ms) = lastOr (sel og) (List.map_filter g ms)"
proof (induction ms rule: rev_induct)
  case Nil
  show ?case by (simp add: lastOr_def)
next
  case (snoc m ms)
  have "sel (foldl step og (ms @ [m])) = sel (step (foldl step og ms) m)" by simp
  also have "\<dots> = (case g m of None \<Rightarrow> sel (foldl step og ms) | Some y \<Rightarrow> y)"
    by (rule assms)
  also have "\<dots> = (case g m of None \<Rightarrow> lastOr (sel og) (List.map_filter g ms) | Some y \<Rightarrow> y)"
    by (simp only: snoc.IH)
  also have "\<dots> = lastOr (sel og) (List.map_filter g (ms @ [m]))"
    by (simp only: lastOr_snoc)
  finally show ?case .
qed

lemma foldl_unchanged:
  assumes "\<And>og m. sel (step og m) = sel og"
  shows "sel (foldl step og ms) = sel og"
  by (induction ms rule: rev_induct) (simp_all add: assms)

lemma ogStep_Title:
  "OpenGraphData.Title (ogStep og m)
     = (case contentIf ''property'' ''og:title'' m of None \<Rightarrow> OpenGraphData.Title og | Some y \<Rightarrow> y)"
proof (cases "Attr m ''property''")
  case None
  then show ?thesis by (simp add: ogStep_def contentIf_def)
next
  case (Some p)
  show ?thesis
  proof (cases "Attr m ''content''")
    case None
    with Some show ?thesis by (simp add: ogStep_def contentIf_def)
  next
    case c: (Some c)
    with Some show ?thesis by (simp add: ogStep_def contentIf_def)
  qed
qed


lemma ogStep_Description:
  "Description (ogStep og m)
     = (case contentIf ''property'' ''og:description'' m of None \<Rightarrow> Description og | Some y \<Rightarrow> y)"
proof (cases "Attr m ''property''")
  case None
  then show ?thesis by (simp add: ogStep_def contentIf_def)
next
  case (Some p)
  show ?thesis
  proof (cases "Attr m ''content''")
    case None
    with Some show ?thesis by (simp add: ogStep_def contentIf_def)
  next
    case c: (Some c)
    with Some show ?thesis by (simp add: ogStep_def contentIf_def)
  qed
qed

lemma ogStep_Image:
  "Image (ogStep og m)
     = (case contentIf ''property'' ''og:image'' m of None \<Rightarrow> Image og | Some y \<Rightarrow> y)"
proof (cases "Attr m ''property''")
  case None
  then show ?thesis by (simp add: ogStep_def contentIf_def)
next
  case (Some p)
  show ?thesis
  proof (cases "Attr m ''content''")
    case None
    with Some show ?thesis by (simp add: ogStep_def contentIf_def)
  next
    case c: (Some c)
    with Some show ?thesis by (simp add: ogStep_def contentIf_def)
  qed
qed

lemma twitterStep_TwitterTitle:
  "TwitterTitle (twitterStep og m)
     = (case contentIf ''name'' ''twitter:title'' m of None \<Rightarrow> TwitterTitle og | Some y \<Rightarrow> y)"
proof (cases "Attr m ''name''")
  case None
  then show ?thesis by (simp add: twitterStep_def contentIf_def)
next
  case (Some p)
  show ?thesis
  proof (cases "Attr m ''content''")
    case None
    with Some show ?thesis by (simp add: twitterStep_def contentIf_def)
  next
    case c: (Some c)
    with Some show ?thesis by (simp add: twitterStep_def contentIf_def)
  qed
qed

lemma twitterStep_TwitterDescription:
  "TwitterDescription (twitterStep og m)
     = (case contentIf ''name'' ''twitter:description'' m of None \<Rightarrow> TwitterDescription og | Some y \<Rightarrow> y)"
proof (cases "Attr m ''name''")
  case None
  then show ?thesis by (simp add: twitterStep_def contentIf_def)
next
  case (Some p)
  show ?thesis
  proof (cases "Attr m ''content''")
    case None
    with Some show ?thesis by (simp add: twitterStep_def contentIf_def)
  next
    case c: (Some c)
    with Some show ?thesis by (simp add: twitterStep_def contentIf_def)
  qed
qed

lemma twitterStep_TwitterImage:
  "TwitterImage (twitterStep og m)
     = (case contentIf ''name'' ''twitter:image'' m of None \<Rightarrow> TwitterImage og | Some y \<Rightarrow> y)"
proof (cases "Attr m ''name''")
  case None
  then show ?thesis by (simp add: twitterStep_def contentIf_def)
next
  case (Some p)
  show ?thesis
  proof (cases "Attr m ''content''")
    case None
    with Some show ?thesis by (simp add: twitterStep_def contentIf_def)
  next
    case c: (Some c)
    with Some show ?thesis by (simp add: twitterStep_def contentIf_def)
  qed
qed

lemma ogStep_Twitter:
  "TwitterTitle (ogStep og m) = TwitterTitle og"
  "TwitterDescription (ogStep og m) = TwitterDescription og"
  "TwitterImage (ogStep og m) = TwitterImage og"
  by (simp_all add: ogStep_def split: option.splits)

lemma twitterStep_og:
  "OpenGraphData.Title (twitterStep og m) = OpenGraphData.Title og"
  "Description (twitterStep og m) = Description og"
  "Image (twitterStep og m) = Image og"
  by (simp_all add: twitterStep_def split: option.splits)

lemma contentIf_nonempty: "contentIf k key m = Some c \<Longrightarrow> c \<noteq> []"
  by (auto simp: contentIf_def split: if_splits option.splits)

lemma lastOr_empty_iff: "lastOr [] (List.map_filter (contentIf k key) ms) = [] \<longleftrightarrow> List.map_filter (contentIf k key) ms = []"
proof (cases "List.map_filter (contentIf k key) ms = []")
  case True
  then show ?thesis by (simp add: lastOr_def)
next
  case False
  then have "last (List.map_filter (contentIf k key) ms) \<in> set (List.map_filter (contentIf k key) ms)"
    by simp
  then obtain m where "contentIf k key m = Some (last (List.map_filter (contentIf k key) ms))"
    by (auto simp: List.map_filter_def)
  then have "last (List.map_filter (contentIf k key) ms) \<noteq> []" by (rule contentIf_nonempty)
  with False show ?thesis by (simp add: lastOr_def)
qed

lemma TrimSpace_Nil: "TrimSpace [] = []"
  by (simp add: TrimSpace_def)

text \<open>The three fields after the Open Graph pass and the Twitter pass.\<close>

lemma og_passes:
  fixes doc og0
  defines "og \<equiv> extractTwitterMetaTags doc (extractOGMetaTags doc og0)"
  shows "OpenGraphData.Title og = lastOr (OpenGraphData.Title og0) (metaContents ''property'' ''og:title'' doc)"
    and "Description og = lastOr (Description og0) (metaContents ''property'' ''og:description'' doc)"
    and "Image og = lastOr (Image og0) (metaContents ''property'' ''og:image'' doc)"
    and "TwitterTitle og = lastOr (TwitterTitle og0) (metaContents ''name'' ''twitter:title'' doc)"
    and "TwitterDescription og = lastOr (TwitterDescription og0) (metaContents ''name'' ''twitter:description'' doc)"
    and "TwitterImage og = lastOr (TwitterImage og0) (metaContents ''name'' ''twitter:image'' doc)"
proof -
  let ?oms = "Find (TagAttrPrefix ''meta'' ''property'' ''og:'') doc"
  let ?tms = "Find (TagAttrPrefix ''meta'' ''name'' ''twitter:'') doc"
  have og: "og = foldl twitterStep (foldl ogStep og0 ?oms) ?tms"
    by (simp add: og_def extractTwitterMetaTags_def extractOGMetaTags_def)
  have "OpenGraphData.Title og = OpenGraphData.Title (foldl ogStep og0 ?oms)"
    unfolding og by (rule foldl_unchanged) (rule twitterStep_og)
  also have "\<dots> = lastOr (OpenGraphData.Title og0) (List.map_filter (contentIf ''property'' ''og:title'') ?oms)"
    by (rule foldl_lastOr) (rule ogStep_Title)
  finally show "OpenGraphData.Title og = lastOr (OpenGraphData.Title og0) (metaContents ''property'' ''og:title'' doc)"
    by (simp add: metaContents_prefix)
  have "Description og = Description (foldl ogStep og0 ?oms)"
    unfolding og by (rule foldl_unchanged) (rule twitterStep_og)
  also have "\<dots> = lastOr (Description og0) (List.map_filter (contentIf ''property'' ''og:description'') ?oms)"
    by (rule foldl_lastOr) (rule ogStep_Description)
  finally show "Description og = lastOr (Description og0) (metaContents ''property'' ''og:description'' doc)"
    by (simp add: metaContents_prefix)
  have "Image og = Image (foldl ogStep og0 ?oms)"
    unfolding og by (rule foldl_unchanged) (rule twitterStep_og)
  also have "\<dots> = lastOr (Image og0) (List.map_filter (contentIf ''property'' ''og:image'') ?oms)"
    by (rule foldl_lastOr) (rule ogStep_Image)
  finally show "Image og = lastOr (Image og0) (metaContents ''property'' ''og:image'' doc)"
    by (simp add: metaContents_prefix)
  have "TwitterTitle og = lastOr (TwitterTitle (foldl ogStep og0 ?oms)) (List.map_filter (contentIf ''name'' ''twitter:title'') ?tms)"
    unfolding og by (rule foldl_lastOr) (rule twitterStep_TwitterTitle)
  also have "TwitterTitle (foldl ogStep og0 ?oms) = TwitterTitle og0"
    by (rule foldl_unchanged) (rule ogStep_Twitter)
  finally show "TwitterTitle og = lastOr (TwitterTitle og0) (metaContents ''name'' ''twitter:title'' doc)"
    by (simp add: metaContents_prefix)
  have "TwitterDescription og = lastOr (TwitterDescription (foldl ogStep og0 ?oms)) (List.map_filter (contentIf ''name'' ''twitter:description'') ?tms)"
    unfolding og by (rule foldl_lastOr) (rule twitterStep_TwitterDescription)
  also have "TwitterDescription (foldl ogStep og0 ?oms) = TwitterDescription og0"
    by (rule foldl_unchanged) (rule ogStep_Twitter)
  finally show "TwitterDescription og = lastOr (TwitterDescription og0) (metaContents ''name'' ''twitter:description'' doc)"
    by (simp add: metaContents_prefix)
  have "TwitterImage og = lastOr (TwitterImage (foldl ogStep og0 ?oms)) (List.map_filter (contentIf ''name'' ''twitter:image'') ?tms)"
    unfolding og by (rule foldl_lastOr) (rule twitterStep_TwitterImage)
  also have "TwitterImage (foldl ogStep og0 ?oms) = TwitterImage og0"
    by (rule foldl_unchanged) (rule ogStep_Twitter)
  finally show "TwitterImage og = lastOr (TwitterImage og0) (metaContents ''name'' ''twitter:image'' doc)"
    by (simp add: metaContents_prefix)
qed


lemma fallback_Title:
  "OpenGraphData.Title (extractFallbackMetaTags doc og)
     = (if OpenGraphData.Title og = [] then TrimSpace (firstText (Tag ''title'') doc)
        else OpenGraphData.Title og)"
  by (simp add: extractFallbackMetaTags_def fallbackAuthor_def fallbackDescription_def
      fallbackTitle_def Let_def TrimSpace_Nil split: option.splits)

lemma fallback_Description:
  "Description (extractFallbackMetaTags doc og)
     = (if Description og = []
        then (case firstAttr (TagAttrEquals ''meta'' ''name'' ''description'') doc ''content'' of
                None \<Rightarrow> [] | Some desc \<Rightarrow> TrimSpace desc)
        else Description og)"
  by (simp add: extractFallbackMetaTags_def fallbackAuthor_def fallbackDescription_def
      fallbackTitle_def Let_def TrimSpace_Nil split: option.splits)

lemma fallback_others:
  "Image (extractFallbackMetaTags doc og) = Image og"
  "TwitterTitle (extractFallbackMetaTags doc og) = TwitterTitle og"
  "TwitterDescription (extractFallbackMetaTags doc og) = TwitterDescription og"
  "TwitterImage (extractFallbackMetaTags doc og) = TwitterImage og"
  by (simp_all add: extractFallbackMetaTags_def fallbackAuthor_def fallbackDescription_def
      fallbackTitle_def Let_def split: option.splits)

text \<open>
  Claim C1, amended.  The title is the content of the last \<open>og:title\<close> tag with a content
  that is not empty, and without such a tag the trimmed text of the first title element
  (empty without one); the description is the content of the last such \<open>og:description\<close>
  tag, and without one the trimmed content of the first \<open>meta\<close> element named
  \<open>description\<close>; the image is the resolved content of the last such \<open>og:image\<close> tag and has
  no fallback.  The Twitter Card tags fill the fields \<open>TwitterTitle\<close>,
  \<open>TwitterDescription\<close> and \<open>TwitterImage\<close> and nothing else.
\<close>

theorem extractOpenGraphData_precedence:
  "OpenGraphData.Title (extractOpenGraphData doc pageURL baseURL)
     = (if metaContents ''property'' ''og:title'' doc \<noteq> []
        then last (metaContents ''property'' ''og:title'' doc)
        else TrimSpace (firstText (Tag ''title'') doc)) \<and>
   Description (extractOpenGraphData doc pageURL baseURL)
     = (if metaContents ''property'' ''og:description'' doc \<noteq> []
        then last (metaContents ''property'' ''og:description'' doc)
        else (case firstAttr (TagAttrEquals ''meta'' ''name'' ''description'') doc ''content'' of
                None \<Rightarrow> [] | Some desc \<Rightarrow> TrimSpace desc)) \<and>
   Image (extractOpenGraphData doc pageURL baseURL)
     = resolveURL (lastOr [] (metaContents ''property'' ''og:image'' doc)) baseURL \<and>
   TwitterTitle (extractOpenGraphData doc pageURL baseURL)
     = lastOr [] (metaContents ''name'' ''twitter:title'' doc) \<and>
   TwitterDescription (extractOpenGraphData doc pageURL baseURL)
     = lastOr [] (metaContents ''name'' ''twitter:description'' doc) \<and>
   TwitterImage (extractOpenGraphData doc pageURL baseURL)
     = resolveURL (lastOr [] (metaContents ''name'' ''twitter:image'' doc)) baseURL"
proof -
  let ?init = "emptyOpenGraphData\<lparr>OpenGraphData.URL := pageURL\<rparr>"
  let ?og = "extractTwitterMetaTags doc (extractOGMetaTags doc ?init)"
  have zero: "OpenGraphData.Title ?init = []" "Description ?init = []" "Image ?init = []"
    "TwitterTitle ?init = []" "TwitterDescription ?init = []" "TwitterImage ?init = []"
    by (simp_all add: emptyOpenGraphData_def)
  note p = og_passes [of doc ?init, unfolded zero]
  have t: "OpenGraphData.Title ?og = [] \<longleftrightarrow> metaContents ''property'' ''og:title'' doc = []"
    unfolding p metaContents_def by (rule lastOr_empty_iff)
  have d: "Description ?og = [] \<longleftrightarrow> metaContents ''property'' ''og:description'' doc = []"
    unfolding p metaContents_def by (rule lastOr_empty_iff)
  have "OpenGraphData.Title (extractOpenGraphData doc pageURL baseURL)
      = OpenGraphData.Title (extractFallbackMetaTags doc ?og)"
    by (simp add: extractOpenGraphData_def Let_def)
  then have 1: "OpenGraphData.Title (extractOpenGraphData doc pageURL baseURL)
     = (if metaContents ''property'' ''og:title'' doc \<noteq> []
        then last (metaContents ''property'' ''og:title'' doc)
        else TrimSpace (firstText (Tag ''title'') doc))"
    using t by (simp add: fallback_Title p(1) lastOr_def)
  have "Description (extractOpenGraphData doc pageURL baseURL)
      = Description (extractFallbackMetaTags doc ?og)"
    by (simp add: extractOpenGraphData_def Let_def)
  then have 2: "Description (extractOpenGraphData doc pageURL baseURL)
     = (if metaContents ''property'' ''og:description'' doc \<noteq> []
        then last (metaContents ''property'' ''og:description'' doc)
        else (case firstAttr (TagAttrEquals ''meta'' ''name'' ''description'') doc ''content'' of
                None \<Rightarrow> [] | Some desc \<Rightarrow> TrimSpace desc))"
    using d by (simp add: fallback_Description p(2) lastOr_def)
  have 3: "Image (extractOpenGraphData doc pageURL baseURL)
     = resolveURL (lastOr [] (metaContents ''property'' ''og:image'' doc)) baseURL"
    by (simp add: extractOpenGraphData_def Let_def fallback_others p(3))
  have 4: "TwitterTitle (extractOpenGraphData doc pageURL baseURL)
     = lastOr [] (metaContents ''name'' ''twitter:title'' doc)"
    by (simp add: extractOpenGraphData_def Let_def fallback_others p(4))
  have 5: "TwitterDescription (extractOpenGraphData doc pageURL baseURL)
     = lastOr [] (metaContents ''name'' ''twitter:description'' doc)"
    by (simp add: extractOpenGraphData_def Let_def fallback_others p(5))
  have 6: "TwitterImage (extractOpenGraphData doc pageURL baseURL)
     = resolveURL (lastOr [] (metaContents ''name'' ''twitter:image'' doc)) baseURL"
    by (simp add: extractOpenGraphData_def Let_def fallback_others p(6))
  from 1 2 3 4 5 6 show ?thesis by blast
qed

text \<open>
  Claim C1 as stated fails: on a page without \<open>og:title\<close>, with a \<open>twitter:title\<close> of
  content \<open>Tw\<close> and a title element \<open>Hello\<close>, the title is \<open>Hello\<close>, not the Twitter value,
  which is stored in the field \<open>TwitterTitle\<close> only.
\<close>

theorem extractOpenGraphData_twitter_counterexample:
  "metaContents ''property'' ''og:title'' twitterPage = [] \<and>
   metaContents ''name'' ''twitter:title'' twitterPage = [''Tw''] \<and>
   OpenGraphData.Title (extractOpenGraphData twitterPage ''https://site.com/a'' siteBase) = ''Hello'' \<and>
   TwitterTitle (extractOpenGraphData twitterPage ''https://site.com/a'' siteBase) = ''Tw''"
  by code_simp

text \<open>Scenario E of the specification, from the theorem.\<close>

theorem extractOpenGraphData_precedence_witness:
  "OpenGraphData.Title (extractOpenGraphData helloPage ''https://site.com/a'' siteBase) = ''Hello''"
proof -
  have "metaContents ''property'' ''og:title'' helloPage = []" by code_simp
  moreover have "TrimSpace (firstText (Tag ''title'') helloPage) = ''Hello''" by code_simp
  ultimately show ?thesis
    using extractOpenGraphData_precedence [of helloPage "''https://site.com/a''" siteBase]
    by simp
qed

section \<open>Properties of the pipeline\<close>

lemma generateExcerpt_200: "generateExcerpt content 200 \<noteq> None"
  by (simp add: generateExcerpt_def Let_def)

lemma convertToMarkdown_cases:
  "convertToMarkdown env html =
     (case ConvertString env html of Inl err \<Rightarrow> html | Inr markdown \<Rightarrow> markdown)"
  by (simp add: convertToMarkdown_def)

text \<open>
  Claim C8, amended.  The adapter returns a string, never an error: the input itself when
  the converter fails, so a result that is not empty for an input that is not empty, and
  the converter's output, whatever it is, when the converter succeeds.  The Markdown field
  of every article that the pipeline returns is such a result.
\<close>

theorem convertToMarkdown_amended:
  "(\<forall>err. ConvertString env html = Inl err \<longrightarrow> convertToMarkdown env html = html) \<and>
   (\<forall>markdown. ConvertString env html = Inr markdown \<longrightarrow> convertToMarkdown env html = markdown) \<and>
   (\<forall>err. html \<noteq> [] \<and> ConvertString env html = Inl err \<longrightarrow> convertToMarkdown env html \<noteq> []) \<and>
   (\<forall>article. CleanArticle env pageURL = (article, None) \<longrightarrow>
      (\<exists>html'. Markdown article = convertToMarkdown env html'))"
proof -
  have "\<And>article. CleanArticle env pageURL = (article, None) \<Longrightarrow>
      \<exists>html'. Markdown article = convertToMarkdown env html'"
    by (auto simp: CleanArticle_def Let_def split: sum.splits prod.splits)
  then show ?thesis
    by (auto simp: convertToMarkdown_def)
qed

text \<open>
  Claim C8 as stated fails where the converter succeeds with the empty string: the adapter
  hands it on, and the Markdown field of the article is empty for a body that is not.
\<close>

theorem convertToMarkdown_empty_counterexample:
  "''<p></p>'' \<noteq> [] \<and> convertToMarkdown blankMarkdownEnv ''<p></p>'' = [] \<and>
   snd (CleanArticle blankMarkdownEnv ''https://site.com/a'') = None \<and>
   Markdown (fst (CleanArticle blankMarkdownEnv ''https://site.com/a'')) = []"
  by (simp add: convertToMarkdown_def blankMarkdownEnv_def accentEnv_def CleanArticle_def
      fetchAndParseDocument_def Let_def)

theorem convertToMarkdown_amended_witness:
  "convertToMarkdown failingEnv ''<p>x</p>'' = ''<p>x</p>'' \<and>
   convertToMarkdown (failingEnv\<lparr>ConvertString := (\<lambda>h. Inl ''failed'')\<rparr>) ''<p>x</p>'' = ''<p>x</p>''"
  using convertToMarkdown_amended [of failingEnv "''<p>x</p>''"]
    convertToMarkdown_amended [of "failingEnv\<lparr>ConvertString := (\<lambda>h. Inl ''failed'')\<rparr>" "''<p>x</p>''"]
  by (simp add: failingEnv_def)

text \<open>
  Claim C9.  When the request fails, when the body does not parse, or when the readability
  library fails on the pruned and rewritten document, \<open>CleanArticle\<close> returns the zero
  article with the error, and \<open>GetCleanedArticle\<close> returns the zero article, every field of
  which is empty: no metadata that was already extracted is in it.
\<close>

theorem CleanArticle_all_or_nothing:
  "(\<forall>err. httpGet env url = Inl err \<longrightarrow>
      CleanArticle env url = (emptyCleanedArticle, Some err) \<and>
      GetCleanedArticle env url = emptyCleanedArticle) \<and>
   (\<forall>resp err. httpGet env url = Inr resp \<and> NewDocumentFromReader env (Body resp) = Inl err \<longrightarrow>
      CleanArticle env url = (emptyCleanedArticle, Some err) \<and>
      GetCleanedArticle env url = emptyCleanedArticle) \<and>
   (\<forall>resp doc err. httpGet env url = Inr resp \<and> NewDocumentFromReader env (Body resp) = Inr doc \<and>
      FromDocument env (processImages (fst (removeUnwantedElements doc)) (RequestURL resp)) = Inl err \<longrightarrow>
      CleanArticle env url = (emptyCleanedArticle, Some err) \<and>
      GetCleanedArticle env url = emptyCleanedArticle) \<and>
   CleanedArticle.Title emptyCleanedArticle = [] \<and> Content emptyCleanedArticle = [] \<and>
   Markdown emptyCleanedArticle = [] \<and> CleanedArticle.URL emptyCleanedArticle = [] \<and>
   CleanedArticle.Author emptyCleanedArticle = [] \<and> Excerpt emptyCleanedArticle = [] \<and>
   Length emptyCleanedArticle = 0 \<and> CleanedArticle.PublishedAt emptyCleanedArticle = [] \<and>
   OpenGraph emptyCleanedArticle = None"
proof -
  have a: "\<And>err. httpGet env url = Inl err \<Longrightarrow>
      CleanArticle env url = (emptyCleanedArticle, Some err)"
    by (simp add: CleanArticle_def fetchAndParseDocument_def)
  have b: "\<And>resp err. httpGet env url = Inr resp \<Longrightarrow> NewDocumentFromReader env (Body resp) = Inl err \<Longrightarrow>
      CleanArticle env url = (emptyCleanedArticle, Some err)"
    by (simp add: CleanArticle_def fetchAndParseDocument_def)
  have c: "\<And>resp doc err. httpGet env url = Inr resp \<Longrightarrow> NewDocumentFromReader env (Body resp) = Inr doc \<Longrightarrow>
      FromDocument env (processImages (fst (removeUnwantedElements doc)) (RequestURL resp)) = Inl err \<Longrightarrow>
      CleanArticle env url = (emptyCleanedArticle, Some err)"
    by (simp add: CleanArticle_def fetchAndParseDocument_def Let_def)
  have g: "\<And>err. CleanArticle env url = (emptyCleanedArticle, Some err) \<Longrightarrow>
      GetCleanedArticle env url = emptyCleanedArticle"
    by (simp add: GetCleanedArticle_def split: option.splits)
  have z: "CleanedArticle.Title emptyCleanedArticle = [] \<and> Content emptyCleanedArticle = [] \<and>
   Markdown emptyCleanedArticle = [] \<and> CleanedArticle.URL emptyCleanedArticle = [] \<and>
   CleanedArticle.Author emptyCleanedArticle = [] \<and> Excerpt emptyCleanedArticle = [] \<and>
   Length emptyCleanedArticle = 0 \<and> CleanedArticle.PublishedAt emptyCleanedArticle = [] \<and>
   OpenGraph emptyCleanedArticle = None"
    by (simp add: emptyCleanedArticle_def)
  from a b c g z show ?thesis by blast
qed

theorem CleanArticle_all_or_nothing_witness:
  "CleanArticle failingEnv ''https://nowhere.test/'' = (emptyCleanedArticle, Some ''no such host'') \<and>
   GetCleanedArticle failingEnv ''https://nowhere.test/'' = emptyCleanedArticle \<and>
   CleanArticle (failingEnv\<lparr>httpGet := (\<lambda>u. Inr \<lparr>Body = [], RequestURL = siteBase\<rparr>)\<rparr>) ''https://site.com/a''
     = (emptyCleanedArticle, Some ''no content'')"
proof -
  have 1: "httpGet failingEnv ''https://nowhere.test/'' = Inl ''no such host''"
    by (simp add: failingEnv_def)
  let ?e = "failingEnv\<lparr>httpGet := (\<lambda>u. Inr \<lparr>Body = [], RequestURL = siteBase\<rparr>)\<rparr>"
  have 2: "httpGet ?e ''https://site.com/a'' = Inr \<lparr>Body = [], RequestURL = siteBase\<rparr> \<and>
     NewDocumentFromReader ?e (Body \<lparr>Body = [], RequestURL = siteBase\<rparr>) = Inr helloPage \<and>
     FromDocument ?e (processImages (fst (removeUnwantedElements helloPage))
        (RequestURL \<lparr>Body = [], RequestURL = siteBase\<rparr>)) = Inl ''no content''"
    by (simp add: failingEnv_def)
  from CleanArticle_all_or_nothing [of failingEnv "''https://nowhere.test/''"] 1
    CleanArticle_all_or_nothing [of ?e "''https://site.com/a''"] 2
  show ?thesis by blast
qed

text \<open>The length field of a returned article is the number of bytes of its content.\<close>

lemma CleanArticle_Length_bytes:
  "CleanArticle env url = (article, None) \<Longrightarrow> Length article = int (length (Content article))"
  by (auto simp: CleanArticle_def Let_def split: sum.splits prod.splits)

lemma foldl_ignore: "foldl (\<lambda>c pattern. c) c ps = c"
  by (induction ps) simp_all

text \<open>
  Claim C7 at a content with a character of two bytes: the length field is \<open>2\<close>, the
  character count of the content is \<open>1\<close>.
\<close>

theorem CleanArticle_Length_accent:
  "snd (CleanArticle accentEnv ''https://site.com/a'') = None \<and>
   Content (fst (CleanArticle accentEnv ''https://site.com/a'')) = [CHR 0xC3, CHR 0xA9] \<and>
   Length (fst (CleanArticle accentEnv ''https://site.com/a'')) = 2 \<and>
   characterCount (Content (fst (CleanArticle accentEnv ''https://site.com/a''))) = 1"
proof -
  have env: "httpGet accentEnv = (\<lambda>u. Inr \<lparr>Body = ''<title>Hello</title><p>text</p>'', RequestURL = siteBase\<rparr>)"
    "NewDocumentFromReader accentEnv = (\<lambda>b. Inr helloPage)"
    "FromDocument accentEnv = (\<lambda>d. Inr \<lparr>Article.Title = ''Hello'', Byline = [],
                                 Article.Content = ''<p>text</p>'',
                                 TextContent = [CHR 0xC3, CHR 0xA9],
                                 PublishedTime = None\<rparr>)"
    "ReplaceAllString accentEnv = (\<lambda>pattern src repl. src)"
    by (simp_all add: accentEnv_def)
  have t: "TrimSpace [CHR 0xC3, CHR 0xA9] = [CHR 0xC3, CHR 0xA9]" by code_simp
  have c: "characterCount [CHR 0xC3, CHR 0xA9] = 1" by code_simp
  have clean: "cleanTextContent accentEnv [CHR 0xC3, CHR 0xA9] = [CHR 0xC3, CHR 0xA9]"
    by (simp add: cleanTextContent_def env Let_def t foldl_ignore)
  have "snd (CleanArticle accentEnv ''https://site.com/a'') = None \<and>
   Content (fst (CleanArticle accentEnv ''https://site.com/a'')) = [CHR 0xC3, CHR 0xA9] \<and>
   Length (fst (CleanArticle accentEnv ''https://site.com/a'')) = 2"
    by (simp add: CleanArticle_def fetchAndParseDocument_def env Let_def clean)
  then show ?thesis by (simp add: c del: characterCount.simps)
qed

section \<open>Properties of the image rewriter\<close>

lemma candidateStep_parse:
  "candidateStep st src = (case parseCandidate src of None \<Rightarrow> st | Some c \<Rightarrow> keepWider st c)"
  by (simp add: candidateStep_def parseCandidate_def keepWider_def Let_def split: option.splits)

lemma foldl_candidateStep:
  "foldl candidateStep st srcs = foldl keepWider st (List.map_filter parseCandidate srcs)"
  by (induction srcs arbitrary: st) (simp_all add: candidateStep_parse split: option.splits)

lemma sourceStep_candidates: "sourceStep st source = foldl keepWider st (sourceCandidates source)"
  by (simp add: sourceStep_def sourceCandidates_def foldl_candidateStep split: option.splits)

lemma foldl_sourceStep:
  "foldl sourceStep st sources = foldl keepWider st (concat (map sourceCandidates sources))"
  by (induction sources arbitrary: st) (simp_all add: sourceStep_candidates)

lemma findHighestQualitySource_candidates:
  "findHighestQualitySource picture = fst (foldl keepWider ([], 0) (candidates picture))"
  by (simp add: findHighestQualitySource_def candidates_def foldl_sourceStep)

lemma foldl_keepWider_inv:
  "(\<forall>j<length cs. snd (cs ! j) \<le> snd (foldl keepWider ([], 0) cs)) \<and>
   (foldl keepWider ([], 0) cs = ([], 0) \<or>
    (\<exists>i<length cs. cs ! i = foldl keepWider ([], 0) cs \<and> 0 < snd (cs ! i)
        \<and> (\<forall>j<i. snd (cs ! j) < snd (cs ! i))))"
proof (induction cs rule: rev_induct)
  case Nil
  show ?case by simp
next
  case (snoc c cs)
  let ?r = "foldl keepWider ([], 0) cs"
  from snoc have le: "\<forall>j<length cs. snd (cs ! j) \<le> snd ?r"
    and sel: "?r = ([], 0) \<or>
      (\<exists>i<length cs. cs ! i = ?r \<and> 0 < snd (cs ! i) \<and> (\<forall>j<i. snd (cs ! j) < snd (cs ! i)))"
    by blast+
  from sel have nonneg: "0 \<le> snd ?r" by auto
  show ?case
  proof (cases "snd c > snd ?r")
    case True
    then have r': "foldl keepWider ([], 0) (cs @ [c]) = c" by (simp add: keepWider_def)
    have "\<forall>j<length (cs @ [c]). snd ((cs @ [c]) ! j) \<le> snd c"
      using le True by (auto simp: nth_append less_Suc_eq)
    moreover have "length cs < length (cs @ [c]) \<and> (cs @ [c]) ! length cs = c
        \<and> 0 < snd ((cs @ [c]) ! length cs)
        \<and> (\<forall>j<length cs. snd ((cs @ [c]) ! j) < snd ((cs @ [c]) ! length cs))"
      using le True nonneg by (auto simp: nth_append)
    ultimately show ?thesis unfolding r' by blast
  next
    case False
    then have r': "foldl keepWider ([], 0) (cs @ [c]) = ?r" by (simp add: keepWider_def)
    have "\<forall>j<length (cs @ [c]). snd ((cs @ [c]) ! j) \<le> snd ?r"
      using le False by (auto simp: nth_append less_Suc_eq)
    moreover have "?r = ([], 0) \<or>
      (\<exists>i<length (cs @ [c]). (cs @ [c]) ! i = ?r \<and> 0 < snd ((cs @ [c]) ! i)
         \<and> (\<forall>j<i. snd ((cs @ [c]) ! j) < snd ((cs @ [c]) ! i)))"
    proof (cases "?r = ([], 0)")
      case True
      then show ?thesis by simp
    next
      case False
      with sel obtain i where i: "i < length cs" "cs ! i = ?r" "0 < snd (cs ! i)"
        "\<forall>j<i. snd (cs ! j) < snd (cs ! i)" by blast
      then have "i < length (cs @ [c]) \<and> (cs @ [c]) ! i = ?r \<and> 0 < snd ((cs @ [c]) ! i)
         \<and> (\<forall>j<i. snd ((cs @ [c]) ! j) < snd ((cs @ [c]) ! i))"
        by (auto simp: nth_append)
      then show ?thesis by blast
    qed
    ultimately show ?thesis unfolding r' by blast
  qed
qed

lemma FieldsAcc_nonempty: "x \<in> set (FieldsAcc s cur) \<Longrightarrow> x \<noteq> []"
  by (induction s cur rule: FieldsAcc.induct) (auto split: if_splits)

lemma parseCandidate_url: "parseCandidate src = Some c \<Longrightarrow> fst c \<noteq> []"
proof -
  assume a: "parseCandidate src = Some c"
  let ?parts = "Fields (TrimSpace src)"
  from a have len: "length ?parts = 2" and c: "fst c = ?parts ! 0"
    by (auto simp: parseCandidate_def Let_def split: if_splits)
  from len have "?parts ! 0 \<in> set ?parts" by simp
  then have "?parts ! 0 \<noteq> []" unfolding Fields_def by (rule FieldsAcc_nonempty)
  with c show ?thesis by simp
qed

lemma candidates_url: "c \<in> set (candidates picture) \<Longrightarrow> fst c \<noteq> []"
proof -
  assume "c \<in> set (candidates picture)"
  then obtain source where "c \<in> set (sourceCandidates source)"
    by (auto simp: candidates_def)
  then obtain src where "parseCandidate src = Some c"
    by (auto simp: sourceCandidates_def List.map_filter_def split: option.splits)
  then show ?thesis by (rule parseCandidate_url)
qed

lemma findHighestQualitySource_none:
  assumes "\<forall>c \<in> set (candidates picture). snd c \<le> 0"
  shows "findHighestQualitySource picture = []"
proof -
  let ?cs = "candidates picture"
  from foldl_keepWider_inv [of ?cs] assms have "foldl keepWider ([], 0) ?cs = ([], 0)"
    by (metis not_less nth_mem)
  then show ?thesis by (simp add: findHighestQualitySource_candidates)
qed

lemma findHighestQualitySource_widest:
  assumes "\<exists>c \<in> set (candidates picture). 0 < snd c"
  shows "\<exists>i<length (candidates picture).
           findHighestQualitySource picture = fst (candidates picture ! i)
           \<and> findHighestQualitySource picture \<noteq> []
           \<and> 0 < snd (candidates picture ! i)
           \<and> (\<forall>j<length (candidates picture). snd (candidates picture ! j) \<le> snd (candidates picture ! i))
           \<and> (\<forall>j<i. snd (candidates picture ! j) < snd (candidates picture ! i))"
proof -
  let ?cs = "candidates picture"
  let ?r = "foldl keepWider ([], 0) ?cs"
  from assms obtain k where k: "k < length ?cs" "0 < snd (?cs ! k)"
    by (auto simp: in_set_conv_nth)
  from foldl_keepWider_inv [of ?cs] have le: "\<forall>j<length ?cs. snd (?cs ! j) \<le> snd ?r"
    and sel: "?r = ([], 0) \<or> (\<exists>i<length ?cs. ?cs ! i = ?r \<and> 0 < snd (?cs ! i)
        \<and> (\<forall>j<i. snd (?cs ! j) < snd (?cs ! i)))"
    by blast+
  from le k have "0 < snd ?r" by fastforce
  with sel obtain i where i: "i < length ?cs" "?cs ! i = ?r" "0 < snd (?cs ! i)"
    "\<forall>j<i. snd (?cs ! j) < snd (?cs ! i)" by auto
  from i(1) have "?cs ! i \<in> set ?cs" by simp
  then have "fst (?cs ! i) \<noteq> []" by (rule candidates_url)
  with i le show ?thesis
    by (auto simp: findHighestQualitySource_candidates intro!: exI [of _ i])
qed

lemma map_of_setAttr: "map_of (setAttr k v as) k = Some v"
  by (induction as) auto

lemma map_of_removeAttr: "k \<noteq> k' \<Longrightarrow> map_of (removeAttr k' as) k = map_of as k"
  by (induction as) auto

lemma pictureImgAttrs_src:
  "hq \<noteq> [] \<Longrightarrow> map_of (pictureImgAttrs base hq as) ''src''
     = Some (resolveURL (ReplaceFirst hq ''webp'' ''png'') base)"
  by (simp add: pictureImgAttrs_def map_of_removeAttr map_of_setAttr)

lemma pictureImgAttrs_untouched:
  "map_of (pictureImgAttrs base [] as) ''src'' = map_of as ''src''"
  by (simp add: pictureImgAttrs_def map_of_removeAttr)

lemma imgAttrs_src_eq:
  "map_of (imgAttrs base as) ''src'' = map_option (\<lambda>src. resolveURL src base) (map_of as ''src'')"
proof -
  let ?as = "removeAttr ''srcset'' (removeAttr ''decoding'' (removeAttr ''loading'' as))"
  have eq: "map_of ?as ''src'' = map_of as ''src''" by (simp add: map_of_removeAttr)
  show ?thesis
  proof (cases "map_of as ''src''")
    case None
    with eq show ?thesis by (simp add: imgAttrs_def)
  next
    case (Some src)
    with eq show ?thesis
      by (cases "resolveURL src base = src") (simp_all add: imgAttrs_def Let_def map_of_setAttr)
  qed
qed


text \<open>
  Claim C4, amended.  The running maximum starts at \<open>0\<close>: when no candidate of the picture
  has a width greater than \<open>0\<close> nothing is selected; otherwise the selected source is the
  URL of the first candidate whose width is the greatest, and it is not empty.  A picture
  with an \<open>img\<close> is replaced by its \<open>img\<close> elements; with a selected source their \<open>src\<close> is
  the source with its first \<open>webp\<close> replaced by \<open>png\<close>, then resolved, and without one
  their \<open>src\<close> is untouched.  The pass over the plain images resolves the \<open>src\<close> and
  replaces nothing in it.
\<close>

theorem picture_selection_amended:
  "((\<forall>c \<in> set (candidates picture). snd c \<le> 0) \<longrightarrow> findHighestQualitySource picture = []) \<and>
   ((\<exists>c \<in> set (candidates picture). 0 < snd c) \<longrightarrow>
      (\<exists>i<length (candidates picture).
           findHighestQualitySource picture = fst (candidates picture ! i)
           \<and> findHighestQualitySource picture \<noteq> []
           \<and> 0 < snd (candidates picture ! i)
           \<and> (\<forall>j<length (candidates picture). snd (candidates picture ! j) \<le> snd (candidates picture ! i))
           \<and> (\<forall>j<i. snd (candidates picture ! j) < snd (candidates picture ! i)))) \<and>
   (Find (Tag ''img'') cs \<noteq> [] \<longrightarrow>
      pictureNode baseURL (Element ''picture'' as cs)
        = map (pictureImg baseURL (findHighestQualitySource (Element ''picture'' as cs)))
            (Find (Tag ''img'') cs)) \<and>
   (hq \<noteq> [] \<longrightarrow>
      map_of (pictureImgAttrs baseURL hq as') ''src''
        = Some (resolveURL (ReplaceFirst hq ''webp'' ''png'') baseURL)) \<and>
   map_of (pictureImgAttrs baseURL [] as') ''src'' = map_of as' ''src'' \<and>
   map_of (imgAttrs baseURL as') ''src''
     = map_option (\<lambda>src. resolveURL src baseURL) (map_of as' ''src'')"
proof (intro conjI impI)
  assume "\<forall>c \<in> set (candidates picture). snd c \<le> 0"
  then show "findHighestQualitySource picture = []" by (rule findHighestQualitySource_none)
next
  assume "\<exists>c \<in> set (candidates picture). 0 < snd c"
  then show "\<exists>i<length (candidates picture).
           findHighestQualitySource picture = fst (candidates picture ! i)
           \<and> findHighestQualitySource picture \<noteq> []
           \<and> 0 < snd (candidates picture ! i)
           \<and> (\<forall>j<length (candidates picture). snd (candidates picture ! j) \<le> snd (candidates picture ! i))
           \<and> (\<forall>j<i. snd (candidates picture ! j) < snd (candidates picture ! i))"
    by (rule findHighestQualitySource_widest)
next
  assume "Find (Tag ''img'') cs \<noteq> []"
  then show "pictureNode baseURL (Element ''picture'' as cs)
        = map (pictureImg baseURL (findHighestQualitySource (Element ''picture'' as cs)))
            (Find (Tag ''img'') cs)"
    by simp
next
  assume "hq \<noteq> []"
  then show "map_of (pictureImgAttrs baseURL hq as') ''src''
        = Some (resolveURL (ReplaceFirst hq ''webp'' ''png'') baseURL)"
    by (rule pictureImgAttrs_src)
next
  show "map_of (pictureImgAttrs baseURL [] as') ''src'' = map_of as' ''src''"
    by (rule pictureImgAttrs_untouched)
next
  show "map_of (imgAttrs baseURL as') ''src''
     = map_option (\<lambda>src. resolveURL src baseURL) (map_of as' ''src'')"
    by (rule imgAttrs_src_eq)
qed

text \<open>
  Claim C4 as stated fails when the greatest width is not positive: the only candidate of
  the picture is \<open>a.jpg\<close> with the width \<open>0\<close>, and no source is selected.
\<close>

theorem picture_selection_zero_width_counterexample:
  "Find (Tag ''img'') (children zeroWidthPicture) \<noteq> [] \<and>
   candidates zeroWidthPicture = [(''a.jpg'', 0)] \<and>
   findHighestQualitySource zeroWidthPicture = [] \<and>
   findHighestQualitySource zeroWidthPicture \<noteq> ''a.jpg''"
  by code_simp

lemma scenarioPicture_candidates:
  "candidates scenarioPicture = [(''a.jpg'', 400), (''b.jpg'', 1200), (''c.jpg'', 800)]"
  by code_simp

text \<open>Scenario C of the specification.\<close>

lemma findHighestQualitySource_scenario_C: "findHighestQualitySource scenarioPicture = ''b.jpg''"
  by code_simp

theorem picture_selection_amended_witness:
  "findHighestQualitySource scenarioPicture = ''b.jpg'' \<and>
   map_of (pictureImgAttrs siteBase ''b.webp'' [(''src'', ''small.jpg'')]) ''src''
     = Some ''https://site.com/b.png'' \<and>
   map_of (imgAttrs siteBase [(''src'', ''/z.webp'')]) ''src'' = Some ''https://site.com/z.webp''"
proof -
  note t = picture_selection_amended [of scenarioPicture "[]" siteBase "[]" "''b.webp''"
      "[(''src'', ''small.jpg'')]"]
  note u = picture_selection_amended [of scenarioPicture "[]" siteBase "[]" "''b.webp''"
      "[(''src'', ''/z.webp'')]"]
  let ?cs = "[(''a.jpg'', 400), (''b.jpg'', 1200), (''c.jpg'', 800)] :: (string \<times> int) list"
  have "\<exists>c \<in> set (candidates scenarioPicture). 0 < snd c"
    by (simp add: scenarioPicture_candidates)
  with t obtain i where i: "i < length (candidates scenarioPicture)"
    "findHighestQualitySource scenarioPicture = fst (candidates scenarioPicture ! i)"
    "\<forall>j<length (candidates scenarioPicture).
        snd (candidates scenarioPicture ! j) \<le> snd (candidates scenarioPicture ! i)"
    by blast
  from i(1) have "i = 0 \<or> i = 1 \<or> i = 2" by (auto simp: scenarioPicture_candidates)
  moreover have "snd (?cs ! 1) \<le> snd (?cs ! i)"
  proof -
    have "(1::nat) < length (candidates scenarioPicture)" by (simp add: scenarioPicture_candidates)
    with i(3) have "snd (candidates scenarioPicture ! 1) \<le> snd (candidates scenarioPicture ! i)"
      by blast
    then show ?thesis by (simp only: scenarioPicture_candidates)
  qed
  ultimately have "i = 1" by auto
  with i(2) have a: "findHighestQualitySource scenarioPicture = ''b.jpg''"
    by (simp add: scenarioPicture_candidates)
  have r: "resolveURL (ReplaceFirst ''b.webp'' ''webp'' ''png'') siteBase = ''https://site.com/b.png''"
    by code_simp
  from t have b: "map_of (pictureImgAttrs siteBase ''b.webp'' [(''src'', ''small.jpg'')]) ''src''
     = Some ''https://site.com/b.png''"
    by (simp add: r)
  have r': "resolveURL ''/z.webp'' siteBase = ''https://site.com/z.webp''"
    by code_simp
  from u have c: "map_of (imgAttrs siteBase [(''src'', ''/z.webp'')]) ''src'' = Some ''https://site.com/z.webp''"
    by (simp add: r')
  from a b c show ?thesis by blast
qed

section \<open>Absolute URLs\<close>

lemma resolveURL_schemeShape:
  "Scheme base = ''http'' \<or> Scheme base = ''https'' \<Longrightarrow> schemeShape (resolveURL raw base)"
  using resolveURL_absolute [of base raw] by (simp add: schemeShape_def HasPrefix_iff)

lemma resolveURL_Nil_iff: "resolveURL raw base = [] \<longleftrightarrow> raw = []"
  by (auto simp: resolveURL_cases)

lemma hostOf_append_slash: "hostOf (h @ CHR ''/'' # rest) = hostOf h"
  by (induction h) (simp_all add: hostOf_def)

lemma resolveURL_path:
  assumes "raw \<noteq> []" "\<not> prefix ''http://'' raw" "\<not> prefix ''https://'' raw" "\<not> prefix ''//'' raw"
  shows "\<exists>rest. resolveURL raw base = Scheme base @ ''://'' @ Host base @ CHR ''/'' # rest"
proof (cases "prefix ''/'' raw")
  case True
  then obtain rest where "raw = CHR ''/'' # rest" by (auto simp: prefix_def)
  with assms show ?thesis by (simp add: resolveURL_cases)
next
  case False
  with assms show ?thesis by (simp add: resolveURL_cases)
qed

lemma absoluteShape_http: "absoluteShape (''http://'' @ rest) \<longleftrightarrow> hostOf rest \<noteq> []"
  by (simp add: absoluteShape_def)

lemma absoluteShape_https: "absoluteShape (''https://'' @ rest) \<longleftrightarrow> hostOf rest \<noteq> []"
  by (simp add: absoluteShape_def)

lemma resolveURL_absoluteShape_iff:
  assumes s: "Scheme base = ''http'' \<or> Scheme base = ''https''" and r: "raw \<noteq> []"
  shows "absoluteShape (resolveURL raw base) \<longleftrightarrow> rawAuthority raw base \<noteq> []"
proof -
  consider (http) "prefix ''http://'' raw" | (https) "prefix ''https://'' raw"
    | (rel) "\<not> prefix ''http://'' raw" "\<not> prefix ''https://'' raw" "prefix ''//'' raw"
    | (path) "\<not> prefix ''http://'' raw" "\<not> prefix ''https://'' raw" "\<not> prefix ''//'' raw"
    by blast
  then show ?thesis
  proof cases
    case http
    then obtain rest where raw: "raw = ''http://'' @ rest" by (auto simp: prefix_def)
    have "resolveURL raw base = raw" using http r by (simp add: resolveURL_cases)
    moreover have "rawAuthority raw base = hostOf rest"
      unfolding raw by (simp add: rawAuthority_def)
    ultimately show ?thesis unfolding raw by (simp only: absoluteShape_http)
  next
    case https
    then obtain rest where raw: "raw = ''https://'' @ rest" by (auto simp: prefix_def)
    have "resolveURL raw base = raw" using https r by (simp add: resolveURL_cases)
    moreover have "rawAuthority raw base = hostOf rest"
      unfolding raw by (simp add: rawAuthority_def)
    ultimately show ?thesis unfolding raw by (simp only: absoluteShape_https)
  next
    case rel
    then obtain rest where raw: "raw = ''//'' @ rest" by (auto simp: prefix_def)
    have "resolveURL raw base = ''https://'' @ rest"
      using rel r by (simp add: resolveURL_cases raw)
    moreover have "rawAuthority raw base = hostOf rest"
      unfolding raw by (simp add: rawAuthority_def)
    ultimately show ?thesis by (simp only: absoluteShape_https)
  next
    case path
    from resolveURL_path [OF r path] obtain rest where
      res: "resolveURL raw base = Scheme base @ ''://'' @ Host base @ CHR ''/'' # rest" by blast
    have a: "rawAuthority raw base = hostOf (Host base)"
      using path by (simp add: rawAuthority_def HasPrefix_iff)
    from s show ?thesis
    proof
      assume "Scheme base = ''http''"
      then have "resolveURL raw base = ''http://'' @ (Host base @ CHR ''/'' # rest)"
        by (simp add: res)
      then show ?thesis by (simp only: absoluteShape_http hostOf_append_slash a)
    next
      assume "Scheme base = ''https''"
      then have "resolveURL raw base = ''https://'' @ (Host base @ CHR ''/'' # rest)"
        by (simp add: res)
      then show ?thesis by (simp only: absoluteShape_https hostOf_append_slash a)
    qed
  qed
qed

lemma hostOf_id: "set h \<inter> set ''/?#'' = {} \<Longrightarrow> hostOf h = h"
  unfolding hostOf_def by (rule takeWhile_eq_all_conv [THEN iffD2]) auto

lemma findNode_imgNode:
  assumes "\<And>tg as as'. P tg as = P tg as'"
  shows "findNode P (imgNode base n) = map (imgNode base) (findNode P n)"
proof (induction n)
  case (TextNode t)
  show ?case by simp
next
  case (Element tg as cs)
  let ?as = "if tg = ''img'' then imgAttrs base as else as"
  have P: "P tg ?as = P tg as" by (rule assms)
  have kids: "map (\<lambda>c. findNode P (imgNode base c)) cs = map (\<lambda>c. map (imgNode base) (findNode P c)) cs"
    using Element.IH by simp
  have "findNode P (imgNode base (Element tg as cs))
      = (if P tg as then [imgNode base (Element tg as cs)] else [])
        @ concat (map (\<lambda>c. findNode P (imgNode base c)) cs)"
    by (simp add: P comp_def)
  also have "\<dots> = (if P tg as then [imgNode base (Element tg as cs)] else [])
        @ concat (map (\<lambda>c. map (imgNode base) (findNode P c)) cs)"
    by (simp only: kids)
  also have "\<dots> = map (imgNode base) (findNode P (Element tg as cs))"
    by (simp add: map_concat comp_def)
  finally show ?case .
qed

lemma Find_img_processImgElements:
  "Find (Tag ''img'') (processImgElements d base) = map (imgNode base) (Find (Tag ''img'') d)"
proof -
  have "\<And>n. findNode (matches (Tag ''img'')) (imgNode base n)
      = map (imgNode base) (findNode (matches (Tag ''img'')) n)"
    by (rule findNode_imgNode) simp
  then show ?thesis
    by (simp add: Find_def processImgElements_def map_concat comp_def)
qed

lemma findNode_tag: "n \<in> set (findNode (matches (Tag t)) m) \<Longrightarrow> \<exists>as cs. n = Element t as cs"
  by (induction m) (auto split: if_splits)

lemma Attr_imgNode_img:
  "Attr (imgNode base (Element ''img'' as cs)) ''src''
     = map_option (\<lambda>src. resolveURL src base) (Attr (Element ''img'' as cs) ''src'')"
  by (simp add: imgAttrs_src_eq)

lemma processImages_srcs:
  "map (\<lambda>n. Attr n ''src'') (Find (Tag ''img'') (processImages doc base))
     = map (\<lambda>n. map_option (\<lambda>src. resolveURL src base) (Attr n ''src''))
         (Find (Tag ''img'') (processPictureElements doc base))"
proof -
  let ?d = "processPictureElements doc base"
  have "\<And>n. n \<in> set (Find (Tag ''img'') ?d) \<Longrightarrow>
      Attr (imgNode base n) ''src'' = map_option (\<lambda>src. resolveURL src base) (Attr n ''src'')"
  proof -
    fix n assume "n \<in> set (Find (Tag ''img'') ?d)"
    then obtain m where "n \<in> set (findNode (matches (Tag ''img'')) m)"
      by (auto simp: Find_def)
    then obtain as cs where "n = Element ''img'' as cs" by (blast dest: findNode_tag)
    then show "Attr (imgNode base n) ''src'' = map_option (\<lambda>src. resolveURL src base) (Attr n ''src'')"
      by (simp only: Attr_imgNode_img)
  qed
  then show ?thesis
    by (simp add: processImages_def Find_img_processImgElements)
qed

lemma extractOpenGraphData_images:
  "Image (extractOpenGraphData doc pageURL base)
     = resolveURL (lastOr [] (metaContents ''property'' ''og:image'' doc)) base"
  "TwitterImage (extractOpenGraphData doc pageURL base)
     = resolveURL (lastOr [] (metaContents ''name'' ''twitter:image'' doc)) base"
proof -
  let ?init = "emptyOpenGraphData\<lparr>OpenGraphData.URL := pageURL\<rparr>"
  have zero: "Image ?init = []" "TwitterImage ?init = []"
    by (simp_all add: emptyOpenGraphData_def)
  note p = og_passes(3,6) [of doc ?init, unfolded zero]
  show "Image (extractOpenGraphData doc pageURL base)
     = resolveURL (lastOr [] (metaContents ''property'' ''og:image'' doc)) base"
    by (simp add: extractOpenGraphData_def Let_def fallback_others p)
  show "TwitterImage (extractOpenGraphData doc pageURL base)
     = resolveURL (lastOr [] (metaContents ''name'' ''twitter:image'' doc)) base"
    by (simp add: extractOpenGraphData_def Let_def fallback_others p)
qed

lemma extractOpenGraphDataInline_images:
  "Image (extractOpenGraphDataInline doc url base)
     = inlineResolveImage (lastOr [] (metaContents ''property'' ''og:image'' doc)) base"
  "TwitterImage (extractOpenGraphDataInline doc url base)
     = inlineResolveImage (lastOr [] (metaContents ''name'' ''twitter:image'' doc)) base"
proof -
  have zero: "Image emptyOpenGraphData = []" "TwitterImage emptyOpenGraphData = []"
    by (simp_all add: emptyOpenGraphData_def)
  note p = og_passes(3,6) [of doc emptyOpenGraphData, unfolded zero]
  show "Image (extractOpenGraphDataInline doc url base)
     = inlineResolveImage (lastOr [] (metaContents ''property'' ''og:image'' doc)) base"
    by (simp add: extractOpenGraphDataInline_def Let_def fallback_others p)
  show "TwitterImage (extractOpenGraphDataInline doc url base)
     = inlineResolveImage (lastOr [] (metaContents ''name'' ''twitter:image'' doc)) base"
    by (simp add: extractOpenGraphDataInline_def Let_def fallback_others p)
qed

lemma inlineResolveImage_agrees:
  assumes "raw = [] \<or> prefix ''http://'' raw \<or> prefix ''https://'' raw \<or> prefix ''/'' raw"
  shows "inlineResolveImage raw base = resolveURL raw base"
proof -
  have h: "prefix ''http://'' raw \<or> prefix ''https://'' raw \<Longrightarrow> HasPrefix raw ''http''"
    by (auto simp: prefix_def)
  have n: "prefix ''/'' raw \<Longrightarrow> \<not> HasPrefix raw ''http'' \<and> \<not> prefix ''http://'' raw \<and> \<not> prefix ''https://'' raw"
    by (auto simp: prefix_def)
  from assms consider "raw = []" | "prefix ''http://'' raw \<or> prefix ''https://'' raw" | "prefix ''/'' raw"
    by blast
  then show ?thesis
  proof cases
    case 1
    then show ?thesis by (simp add: inlineResolveImage_def resolveURL_def)
  next
    case 2
    with h show ?thesis by (auto simp: inlineResolveImage_def resolveURL_cases)
  next
    case 3
    with n show ?thesis by (auto simp: inlineResolveImage_def resolveURL_cases HasPrefix_iff)
  qed
qed


text \<open>
  Claim C2, amended.  For a base with the scheme \<open>http\<close> or \<open>https\<close>: the image and the
  Twitter image of the metadata are the resolved contents of the last \<open>og:image\<close> and
  \<open>twitter:image\<close> tags, and the \<open>src\<close> of every \<open>img\<close> element after the rewriting is the
  resolved \<open>src\<close> that the picture pass left.  A resolved value is empty only for the empty
  raw value, and is empty or begins with \<open>http://\<close> or \<open>https://\<close>.  For a raw value that is
  not empty it has the shape of an absolute URL exactly when the raw value carries a host
  that is not empty: the host after \<open>http://\<close>, \<open>https://\<close> or \<open>//\<close> when the raw value
  begins so, and the host of the base for an absolute or a relative path, where the result
  begins with scheme, \<open>://\<close>, host of the base and \<open>/\<close>.  The inline variant of the
  extractor resolves the same two contents and agrees with the resolver on every raw
  value that is empty or begins with \<open>http://\<close>, \<open>https://\<close> or \<open>/\<close>.
\<close>

theorem absolute_urls_amended:
  assumes "Scheme baseURL = ''http'' \<or> Scheme baseURL = ''https''"
  shows
    "Image (extractOpenGraphData doc pageURL baseURL)
       = resolveURL (lastOr [] (metaContents ''property'' ''og:image'' doc)) baseURL \<and>
     TwitterImage (extractOpenGraphData doc pageURL baseURL)
       = resolveURL (lastOr [] (metaContents ''name'' ''twitter:image'' doc)) baseURL \<and>
     map (\<lambda>n. Attr n ''src'') (Find (Tag ''img'') (processImages doc baseURL))
       = map (\<lambda>n. map_option (\<lambda>src. resolveURL src baseURL) (Attr n ''src''))
           (Find (Tag ''img'') (processPictureElements doc baseURL)) \<and>
     (\<forall>raw. (resolveURL raw baseURL = [] \<longleftrightarrow> raw = []) \<and> schemeShape (resolveURL raw baseURL)) \<and>
     (\<forall>raw. raw \<noteq> [] \<longrightarrow>
        (absoluteShape (resolveURL raw baseURL) \<longleftrightarrow> rawAuthority raw baseURL \<noteq> [])) \<and>
     (\<forall>raw. raw \<noteq> [] \<and> \<not> prefix ''http://'' raw \<and> \<not> prefix ''https://'' raw \<and> \<not> prefix ''//'' raw \<longrightarrow>
        prefix (Scheme baseURL @ ''://'' @ Host baseURL @ ''/'') (resolveURL raw baseURL) \<and>
        rawAuthority raw baseURL = hostOf (Host baseURL)) \<and>
     (set (Host baseURL) \<inter> set ''/?#'' = {} \<longrightarrow> hostOf (Host baseURL) = Host baseURL) \<and>
     Image (extractOpenGraphDataInline doc pageURL baseURL)
       = inlineResolveImage (lastOr [] (metaContents ''property'' ''og:image'' doc)) baseURL \<and>
     TwitterImage (extractOpenGraphDataInline doc pageURL baseURL)
       = inlineResolveImage (lastOr [] (metaContents ''name'' ''twitter:image'' doc)) baseURL \<and>
     (\<forall>raw. raw = [] \<or> prefix ''http://'' raw \<or> prefix ''https://'' raw \<or> prefix ''/'' raw \<longrightarrow>
        inlineResolveImage raw baseURL = resolveURL raw baseURL)"
proof -
  have path: "\<And>raw. raw \<noteq> [] \<and> \<not> prefix ''http://'' raw \<and> \<not> prefix ''https://'' raw \<and> \<not> prefix ''//'' raw \<Longrightarrow>
        prefix (Scheme baseURL @ ''://'' @ Host baseURL @ ''/'') (resolveURL raw baseURL) \<and>
        rawAuthority raw baseURL = hostOf (Host baseURL)"
  proof -
    fix raw
    assume a: "raw \<noteq> [] \<and> \<not> prefix ''http://'' raw \<and> \<not> prefix ''https://'' raw \<and> \<not> prefix ''//'' raw"
    then obtain rest where
      "resolveURL raw baseURL = Scheme baseURL @ ''://'' @ Host baseURL @ CHR ''/'' # rest"
      using resolveURL_path [of raw baseURL] by blast
    then have "resolveURL raw baseURL = (Scheme baseURL @ ''://'' @ Host baseURL @ ''/'') @ rest"
      by simp
    then have "prefix (Scheme baseURL @ ''://'' @ Host baseURL @ ''/'') (resolveURL raw baseURL)"
      by (simp only: prefixI)
    moreover have "rawAuthority raw baseURL = hostOf (Host baseURL)"
      using a by (simp add: rawAuthority_def HasPrefix_iff)
    ultimately show "prefix (Scheme baseURL @ ''://'' @ Host baseURL @ ''/'') (resolveURL raw baseURL) \<and>
        rawAuthority raw baseURL = hostOf (Host baseURL)" by blast
  qed
  have shape: "\<And>raw. (resolveURL raw baseURL = [] \<longleftrightarrow> raw = []) \<and> schemeShape (resolveURL raw baseURL)"
    using assms by (simp add: resolveURL_Nil_iff resolveURL_schemeShape)
  have iff: "\<And>raw. raw \<noteq> [] \<Longrightarrow>
        (absoluteShape (resolveURL raw baseURL) \<longleftrightarrow> rawAuthority raw baseURL \<noteq> [])"
    using assms by (rule resolveURL_absoluteShape_iff)
  have host: "set (Host baseURL) \<inter> set ''/?#'' = {} \<Longrightarrow> hostOf (Host baseURL) = Host baseURL"
    by (rule hostOf_id)
  have agree: "\<And>raw. raw = [] \<or> prefix ''http://'' raw \<or> prefix ''https://'' raw \<or> prefix ''/'' raw \<Longrightarrow>
        inlineResolveImage raw baseURL = resolveURL raw baseURL"
    by (rule inlineResolveImage_agrees)
  from extractOpenGraphData_images [of doc pageURL baseURL] processImages_srcs [of doc baseURL]
    extractOpenGraphDataInline_images [of doc pageURL baseURL] shape iff path host agree
  show ?thesis by blast
qed

text \<open>
  Claim C2 as stated fails for a raw value without a host: the Open Graph image
  \<open>///x.png\<close> becomes \<open>https:///x.png\<close>, which is not empty and has no host.
\<close>

theorem absolute_urls_hostless_counterexample:
  "Scheme siteBase = ''https'' \<and> Host siteBase = ''site.com'' \<and>
   Image (extractOpenGraphData hostlessPage ''https://site.com/a'' siteBase) = ''https:///x.png'' \<and>
   \<not> absoluteShape (Image (extractOpenGraphData hostlessPage ''https://site.com/a'' siteBase))"
  by code_simp

lemma imagePage_pictures:
  "map (\<lambda>n. Attr n ''src'') (Find (Tag ''img'') (processPictureElements imagePage siteBase))
     = [Some ''https://site.com/b.png'', Some ''/z.webp'']"
  by code_simp

theorem absolute_urls_amended_witness:
  "Scheme siteBase = ''https'' \<and>
   Image (extractOpenGraphData imagePage ''https://site.com/a'' siteBase) = ''https://site.com/img/a.png'' \<and>
   map (\<lambda>n. Attr n ''src'') (Find (Tag ''img'') (processImages imagePage siteBase))
     = [Some ''https://site.com/b.png'', Some ''https://site.com/z.webp''] \<and>
   absoluteShape (resolveURL ''img/a.png'' siteBase) \<and>
   absoluteShape (resolveURL ''//cdn.example.com/x.png'' siteBase) \<and>
   \<not> absoluteShape (resolveURL ''///x.png'' siteBase)"
proof -
  have s: "Scheme siteBase = ''http'' \<or> Scheme siteBase = ''https''" by (simp add: siteBase_def)
  note t = absolute_urls_amended [OF s, of imagePage "''https://site.com/a''"]
  have raw: "lastOr [] (metaContents ''property'' ''og:image'' imagePage) = ''img/a.png''"
    by code_simp
  have r1: "resolveURL ''img/a.png'' siteBase = ''https://site.com/img/a.png''" by code_simp
  have r2: "resolveURL ''https://site.com/b.png'' siteBase = ''https://site.com/b.png''" by code_simp
  have r3: "resolveURL ''/z.webp'' siteBase = ''https://site.com/z.webp''" by code_simp
  from t have i: "Image (extractOpenGraphData imagePage ''https://site.com/a'' siteBase) = ''https://site.com/img/a.png''"
    by (simp only: raw r1)
  from t have "map (\<lambda>n. Attr n ''src'') (Find (Tag ''img'') (processImages imagePage siteBase))
       = map (\<lambda>n. map_option (\<lambda>src. resolveURL src siteBase) (Attr n ''src''))
           (Find (Tag ''img'') (processPictureElements imagePage siteBase))"
    by blast
  also have "\<dots> = map (map_option (\<lambda>src. resolveURL src siteBase))
      (map (\<lambda>n. Attr n ''src'') (Find (Tag ''img'') (processPictureElements imagePage siteBase)))"
    by (simp add: comp_def)
  also have "\<dots> = [Some ''https://site.com/b.png'', Some ''https://site.com/z.webp'']"
    by (simp add: imagePage_pictures r2 r3)
  finally have m: "map (\<lambda>n. Attr n ''src'') (Find (Tag ''img'') (processImages imagePage siteBase))
     = [Some ''https://site.com/b.png'', Some ''https://site.com/z.webp'']" .
  have a1: "rawAuthority ''img/a.png'' siteBase = ''site.com''" by code_simp
  have a2: "rawAuthority ''//cdn.example.com/x.png'' siteBase = ''cdn.example.com''" by code_simp
  have a3: "rawAuthority ''///x.png'' siteBase = []" by code_simp
  from t have iff: "\<And>raw. raw \<noteq> [] \<Longrightarrow>
        (absoluteShape (resolveURL raw siteBase) \<longleftrightarrow> rawAuthority raw siteBase \<noteq> [])"
    by blast
  have b1: "absoluteShape (resolveURL ''img/a.png'' siteBase)"
    using iff [of "''img/a.png''"] by (simp add: a1)
  have b2: "absoluteShape (resolveURL ''//cdn.example.com/x.png'' siteBase)"
    using iff [of "''//cdn.example.com/x.png''"] by (simp add: a2)
  have b3: "\<not> absoluteShape (resolveURL ''///x.png'' siteBase)"
    using iff [of "''///x.png''"] by (simp add: a3)
  from i m b1 b2 b3 show ?thesis by (simp add: siteBase_def)
qed

text \<open>The inline variant leaves a relative path as it is.\<close>

lemma inlineResolveImage_relative: "inlineResolveImage ''img/a.png'' siteBase = ''img/a.png''"
  by (simp add: inlineResolveImage_def)

end
